theory Spec2Isabelle
  imports Main "HOL-Library.Monad_Syntax" "HOL-Library.Product_Lexorder"
begin

section \<open>Strings and the platform's string functions\<close>

text \<open>
  The worker is JavaScript. A JavaScript string is a sequence of code units; the model
  uses \<^typ>\<open>string\<close>, that is code units below 256. This is exact for everything
  \<open>atob\<close> returns (a binary string), and every pattern of the source mentions ASCII
  characters only, so a code unit above 255 in a page or a token behaves like any other
  character that no pattern names.
\<close>

abbreviation dq :: char where
  "dq \<equiv> CHR 0x22"

text \<open>\<open>s.startsWith(w)\<close>, \<open>s.endsWith(w)\<close> and \<open>s.includes(w)\<close>.\<close>

definition startsWith :: "string \<Rightarrow> string \<Rightarrow> bool" where
  "startsWith s w = (take (length w) s = w)"

definition endsWith :: "string \<Rightarrow> string \<Rightarrow> bool" where
  "endsWith s w = (length w \<le> length s \<and> drop (length s - length w) s = w)"

fun includes_js :: "string \<Rightarrow> string \<Rightarrow> bool" where
  "includes_js [] w = (w = [])"
| "includes_js (c # cs) w = (startsWith (c # cs) w \<or> includes_js cs w)"

text \<open>
  \<open>s.split(sep)\<close> with a string separator: the pieces between the leftmost,
  non-overlapping occurrences of \<open>sep\<close>; the empty string splits into one empty piece.
\<close>

function split_from :: "string \<Rightarrow> string \<Rightarrow> string \<Rightarrow> string list" where
  "split_from sep cur [] = [cur]"
| "split_from sep cur (c # cs) =
     (if sep \<noteq> [] \<and> startsWith (c # cs) sep
      then cur # split_from sep [] (drop (length sep) (c # cs))
      else split_from sep (cur @ [c]) cs)"
  by pat_completeness auto
termination
  by (relation "measure (\<lambda>(sep, cur, s). length s)") auto

definition split_js :: "string \<Rightarrow> string \<Rightarrow> string list" where
  "split_js s sep = (if sep = [] then map (\<lambda>c. [c]) s else split_from sep [] s)"

text \<open>
  White space as \<open>trim\<close>, \<open>parseInt\<close> and the class \<open>\s\<close> read it (the code units
  below 256 among WhiteSpace and LineTerminator), and the line terminators that \<open>.\<close>
  does not match.
\<close>

definition js_space :: "char \<Rightarrow> bool" where
  "js_space c = (c = CHR 0x09 \<or> c = CHR 0x0A \<or> c = CHR 0x0B \<or> c = CHR 0x0C \<or> c = CHR 0x0D
     \<or> c = CHR 0x20 \<or> c = CHR 0xA0)"

definition line_terminator :: "char \<Rightarrow> bool" where
  "line_terminator c = (c = CHR 0x0A \<or> c = CHR 0x0D)"

definition trim :: "string \<Rightarrow> string" where
  "trim s = rev (dropWhile js_space (rev (dropWhile js_space s)))"

definition is_digit :: "char \<Rightarrow> bool" where
  "is_digit c = (48 \<le> (of_char c :: nat) \<and> (of_char c :: nat) \<le> 57)"

section \<open>Numbers\<close>

text \<open>
  A Number is a double. The numbers this worker computes come from \<open>parseInt\<close>, from
  the literal \<open>0\<close> and from the subtraction of two of them: they are NaN, the two
  infinities, and integers that a double holds. Minus zero is not told from zero:
  \<open>||\<close>, \<open>includes\<close>, the comparison with zero and the conversion to a string treat
  the two alike.
\<close>

datatype number = NaN | Finite int | PosInfinity | NegInfinity

text \<open>
  The Number value of a mathematical integer, as the engine computes it: the nearest
  double, and of two that are equally near the one whose significand is even (the
  standard would let \<open>parseInt\<close> drop the decimal digits after the twentieth; the
  engine of the worker rounds the integer itself). A double
  holds 53 significant bits, so an integer below \<open>2^53\<close> is a double;
  \<open>excess_bits n\<close> is the number of low bits of \<open>n\<close> that do not fit. What rounds to
  \<open>2^1024\<close> or more is an infinity.
\<close>

function excess_bits :: "nat \<Rightarrow> nat" where
  "excess_bits n = (if n < 2 ^ 53 then 0 else Suc (excess_bits (n div 2)))"
  by pat_completeness auto
termination
  by (relation "measure id") auto

declare excess_bits.simps [simp del]

definition nearest_double :: "nat \<Rightarrow> nat" where
  "nearest_double n =
     (let e = excess_bits n; q = n div 2 ^ e; r = n mod 2 ^ e
      in if 2 * r < 2 ^ e \<or> (2 * r = 2 ^ e \<and> even q) then q * 2 ^ e else (q + 1) * 2 ^ e)"

definition to_number :: "int \<Rightarrow> number" where
  "to_number i =
     (if \<bar>i\<bar> < 2 ^ 53 then Finite i
      else (let m = int (nearest_double (nat \<bar>i\<bar>))
            in if 2 ^ 1024 \<le> m then (if i < 0 then NegInfinity else PosInfinity)
               else Finite (if i < 0 then - m else m)))"

text \<open>
  \<open>parseInt(str)\<close> with no radix: leading white space, a sign, the prefix \<open>0x\<close> or
  \<open>0X\<close> (then radix 16), and the longest run of digits of the radix; with no digit
  the result is NaN, otherwise the Number value of the integer that the digits denote.
\<close>

definition digit_val :: "nat \<Rightarrow> char \<Rightarrow> nat option" where
  "digit_val radix c =
     (let n = (of_char c :: nat);
          v = (if 48 \<le> n \<and> n \<le> 57 then Some (n - 48)
               else if 97 \<le> n \<and> n \<le> 122 then Some (n - 87)
               else if 65 \<le> n \<and> n \<le> 90 then Some (n - 55)
               else None)
      in case v of None \<Rightarrow> None | Some d \<Rightarrow> if d < radix then Some d else None)"

fun digits_prefix :: "nat \<Rightarrow> string \<Rightarrow> nat list" where
  "digits_prefix radix [] = []"
| "digits_prefix radix (c # cs) =
     (case digit_val radix c of None \<Rightarrow> [] | Some d \<Rightarrow> d # digits_prefix radix cs)"

definition parseInt :: "string \<Rightarrow> number" where
  "parseInt str =
     (let s1 = dropWhile js_space str;
          neg = (s1 \<noteq> [] \<and> hd s1 = CHR ''-'');
          s2 = (if s1 \<noteq> [] \<and> (hd s1 = CHR ''-'' \<or> hd s1 = CHR ''+'') then tl s1 else s1);
          hex = (startsWith s2 ''0x'' \<or> startsWith s2 ''0X'');
          radix = (if hex then 16 else 10);
          ds = digits_prefix radix (if hex then drop 2 s2 else s2);
          v = int (foldl (\<lambda>a d. a * radix + d) 0 ds)
      in if ds = [] then NaN else to_number (if neg then - v else v))"

text \<open>
  The difference \<open>x - y\<close> of two such numbers, which is the nearest double of the exact
  difference, and the test \<open>v > 0\<close>.
\<close>

fun minus_js :: "number \<Rightarrow> number \<Rightarrow> number" where
  "minus_js (Finite a) (Finite b) = to_number (a - b)"
| "minus_js NaN y = NaN"
| "minus_js x NaN = NaN"
| "minus_js PosInfinity PosInfinity = NaN"
| "minus_js NegInfinity NegInfinity = NaN"
| "minus_js PosInfinity y = PosInfinity"
| "minus_js NegInfinity y = NegInfinity"
| "minus_js (Finite a) PosInfinity = NegInfinity"
| "minus_js (Finite a) NegInfinity = PosInfinity"

fun positive :: "number \<Rightarrow> bool" where
  "positive (Finite i) = (0 < i)"
| "positive PosInfinity = True"
| "positive NaN = False"
| "positive NegInfinity = False"

text \<open>
  \<open>array.sort(comparefn)\<close>. The sort is stable, and \<open>x\<close> is put behind \<open>y\<close> only
  when \<open>comparefn(x, y)\<close> is greater than zero, a result that is NaN counting as zero.
  For a comparator that orders the elements by a key, as the one of this worker does, the
  outcome is thereby determined; the model reaches it by inserting the elements one by
  one, from the last to the first, each before the first element it is not to follow.
\<close>

fun insert_sorted :: "('a \<Rightarrow> 'a \<Rightarrow> number) \<Rightarrow> 'a \<Rightarrow> 'a list \<Rightarrow> 'a list" where
  "insert_sorted cmp x [] = [x]"
| "insert_sorted cmp x (y # ys) =
     (if positive (cmp x y) then y # insert_sorted cmp x ys else x # y # ys)"

definition sort_js :: "('a \<Rightarrow> 'a \<Rightarrow> number) \<Rightarrow> 'a list \<Rightarrow> 'a list" where
  "sort_js cmp xs = foldr (insert_sorted cmp) xs []"

text \<open>The decimal rendering of a natural number (a status code, an array index).\<close>

function show_nat :: "nat \<Rightarrow> string" where
  "show_nat n = (if n < 10 then [char_of (48 + n)]
                 else show_nat (n div 10) @ [char_of (48 + n mod 10)])"
  by pat_completeness auto
termination
  by (relation "measure id") auto

declare show_nat.simps [simp del]

section \<open>atob: the forgiving base64 decoder\<close>

text \<open>
  \<open>atob\<close> is the platform's decoder (WHATWG forgiving-base64-decode): ASCII white space
  is removed; when the length is a multiple of four, one or two trailing \<open>=\<close> are
  removed; a length of 1 modulo 4 or a character outside the alphabet fails (the call
  throws, here \<open>None\<close>); the sextets are then turned into bytes, the spare bits of a
  last group of two or three characters being dropped.
\<close>

definition ascii_whitespace :: "char \<Rightarrow> bool" where
  "ascii_whitespace c = (c = CHR 0x09 \<or> c = CHR 0x0A \<or> c = CHR 0x0C \<or> c = CHR 0x0D \<or> c = CHR 0x20)"

definition b64_index :: "char \<Rightarrow> nat option" where
  "b64_index c =
     (let n = (of_char c :: nat) in
      if 65 \<le> n \<and> n \<le> 90 then Some (n - 65)
      else if 97 \<le> n \<and> n \<le> 122 then Some (n - 71)
      else if 48 \<le> n \<and> n \<le> 57 then Some (n + 4)
      else if n = 43 then Some 62
      else if n = 47 then Some 63
      else None)"

definition strip_padding :: "string \<Rightarrow> string" where
  "strip_padding d =
     (if endsWith d ''=='' then take (length d - 2) d
      else if endsWith d ''='' then take (length d - 1) d
      else d)"

fun sextets_to_bytes :: "nat list \<Rightarrow> string" where
  "sextets_to_bytes (a # b # c # d # rest) =
     (let n = ((a * 64 + b) * 64 + c) * 64 + d
      in char_of (n div 65536) # char_of (n div 256) # char_of n # sextets_to_bytes rest)"
| "sextets_to_bytes [a, b, c] =
     (let n = ((a * 64 + b) * 64 + c) div 4 in [char_of (n div 256), char_of n])"
| "sextets_to_bytes [a, b] = [char_of ((a * 64 + b) div 16)]"
| "sextets_to_bytes [a] = []"
| "sextets_to_bytes [] = []"

definition atob :: "string \<Rightarrow> string option" where
  "atob data =
     (let d1 = filter (\<lambda>c. \<not> ascii_whitespace c) data;
          d2 = (if length d1 mod 4 = 0 then strip_padding d1 else d1)
      in if length d2 mod 4 = 1 then None
         else map_option sextets_to_bytes (those (map b64_index d2)))"

section \<open>The deobfuscator\<close>

text \<open>
  \<open>TRASH_PATTERN\<close> is
  \<^verbatim>\<open>/^#h|\/\/_\/\/|(?:I[01UV]|[JQ][EF]|X[kl])(?:[A4][=hjk]|[B5][Ae])|(?:I[Sy]|[JQ]C|Xi)(?:[EMQ][=hjk]|[FNR][Ae])/g\<close>.
  Each alternative has a fixed length; \<open>trash_match at_start s\<close> is the length of the
  match that begins at the front of \<open>s\<close>, the alternatives tried in the order of the
  pattern, \<open>at_start\<close> telling whether the front of \<open>s\<close> is the start of the input
  (the anchor \<open>^\<close> has no multiline flag).
\<close>

definition trash_head1 :: "char \<Rightarrow> char \<Rightarrow> bool" where
  "trash_head1 a b =
     ((a = CHR ''I'' \<and> (b = CHR ''0'' \<or> b = CHR ''1'' \<or> b = CHR ''U'' \<or> b = CHR ''V''))
      \<or> ((a = CHR ''J'' \<or> a = CHR ''Q'') \<and> (b = CHR ''E'' \<or> b = CHR ''F''))
      \<or> (a = CHR ''X'' \<and> (b = CHR ''k'' \<or> b = CHR ''l'')))"

definition trash_tail1 :: "char \<Rightarrow> char \<Rightarrow> bool" where
  "trash_tail1 c d =
     (((c = CHR ''A'' \<or> c = CHR ''4'')
         \<and> (d = CHR ''='' \<or> d = CHR ''h'' \<or> d = CHR ''j'' \<or> d = CHR ''k''))
      \<or> ((c = CHR ''B'' \<or> c = CHR ''5'') \<and> (d = CHR ''A'' \<or> d = CHR ''e'')))"

definition trash_head2 :: "char \<Rightarrow> char \<Rightarrow> bool" where
  "trash_head2 a b =
     ((a = CHR ''I'' \<and> (b = CHR ''S'' \<or> b = CHR ''y''))
      \<or> ((a = CHR ''J'' \<or> a = CHR ''Q'') \<and> b = CHR ''C'')
      \<or> (a = CHR ''X'' \<and> b = CHR ''i''))"

definition trash_tail2 :: "char \<Rightarrow> char \<Rightarrow> bool" where
  "trash_tail2 c d =
     (((c = CHR ''E'' \<or> c = CHR ''M'' \<or> c = CHR ''Q'')
         \<and> (d = CHR ''='' \<or> d = CHR ''h'' \<or> d = CHR ''j'' \<or> d = CHR ''k''))
      \<or> ((c = CHR ''F'' \<or> c = CHR ''N'' \<or> c = CHR ''R'') \<and> (d = CHR ''A'' \<or> d = CHR ''e'')))"

definition trash4 :: "char \<Rightarrow> char \<Rightarrow> char \<Rightarrow> char \<Rightarrow> bool" where
  "trash4 a b c d =
     ((trash_head1 a b \<and> trash_tail1 c d) \<or> (trash_head2 a b \<and> trash_tail2 c d))"

definition trash_match :: "bool \<Rightarrow> string \<Rightarrow> nat option" where
  "trash_match at_start s =
     (if at_start \<and> startsWith s ''#h'' then Some 2
      else if startsWith s ''//_//'' then Some 5
      else (case s of
              a # b # c # d # _ \<Rightarrow> if trash4 a b c d then Some 4 else None
            | _ \<Rightarrow> None))"

text \<open>
  \<open>trashString.replace(TRASH_PATTERN, '')\<close>: one pass from left to right; at each
  position a match is dropped and the scan goes on behind it, otherwise the character is
  kept.
\<close>

function replace_trash :: "bool \<Rightarrow> string \<Rightarrow> string" where
  "replace_trash at_start [] = []"
| "replace_trash at_start (c # cs) =
     (case trash_match at_start (c # cs) of
        Some n \<Rightarrow> replace_trash False (drop n (c # cs))
      | None \<Rightarrow> c # replace_trash False cs)"
  by pat_completeness auto
termination
  by (relation "measure (\<lambda>(b, s). length s)")
    (auto simp: trash_match_def split: if_splits list.splits)

definition clearTrash :: "string \<Rightarrow> string" where
  "clearTrash trashString =
     (let cleaned = replace_trash True trashString;
          padded = cleaned @ ''==''
      in case atob padded of
           Some r \<Rightarrow> r
         | None \<Rightarrow> (case atob cleaned of Some r \<Rightarrow> r | None \<Rightarrow> ''''))"

section \<open>Plain objects\<close>

text \<open>
  A plain object is the list of its own properties in the order of their creation, the
  keys distinct. Assigning to a key it has keeps the key's place, a new key goes to the
  end. \<open>Object.keys\<close>, \<open>Object.entries\<close> and \<open>JSON.stringify\<close> do not enumerate in
  that order: the keys that are array indices (canonical decimal numerals below
  \<open>2^32 - 1\<close>) come first, in ascending numeric order, and the other keys follow in
  the order of their creation.
\<close>

type_synonym 'v jsobj = "(string \<times> 'v) list"

fun obj_update :: "string \<Rightarrow> 'v \<Rightarrow> 'v jsobj \<Rightarrow> 'v jsobj" where
  "obj_update k v [] = [(k, v)]"
| "obj_update k v (p # ps) = (if fst p = k then (k, v) # ps else p # obj_update k v ps)"

definition decimal_value :: "string \<Rightarrow> nat" where
  "decimal_value k = foldl (\<lambda>a c. a * 10 + (of_char c - 48)) 0 k"

definition is_array_index :: "string \<Rightarrow> bool" where
  "is_array_index k =
     (k \<noteq> [] \<and> list_all is_digit k \<and> (k = ''0'' \<or> take 1 k \<noteq> ''0'')
      \<and> decimal_value k < 4294967295)"

definition own_properties :: "'v jsobj \<Rightarrow> 'v jsobj" where
  "own_properties obj =
     sort_key (\<lambda>p. decimal_value (fst p)) (filter (\<lambda>p. is_array_index (fst p)) obj)
     @ filter (\<lambda>p. \<not> is_array_index (fst p)) obj"

definition Object_keys :: "'v jsobj \<Rightarrow> string list" where
  "Object_keys obj = map fst (own_properties obj)"

text \<open>
  \<open>urls[quality] = url\<close> on an object made by \<open>{}\<close>, for a string \<open>url\<close>: the key
  \<open>__proto__\<close> is the accessor of \<open>Object.prototype\<close>, whose setter ignores a value
  that is neither an object nor null, so that assignment creates no property.
\<close>

definition set_property :: "string jsobj \<Rightarrow> string \<Rightarrow> string \<Rightarrow> string jsobj" where
  "set_property obj k v = (if k = ''__proto__'' then obj else obj_update k v obj)"

section \<open>The stream-payload parser\<close>

text \<open>
  \<open>part.match(/^\[([^\]]+)\](.+)$/)\<close>: a \<open>[\<close>, the characters up to the first
  \<open>]\<close> (at least one), the \<open>]\<close>, and the rest of the part, which is not empty and has no
  line terminator (\<open>.\<close> matches none, \<open>$\<close> is the end of the part).
\<close>

definition match_quality :: "string \<Rightarrow> (string \<times> string) option" where
  "match_quality part =
     (case part of
        [] \<Rightarrow> None
      | c # r \<Rightarrow>
          if c \<noteq> CHR ''['' then None
          else (let quality = takeWhile (\<lambda>x. x \<noteq> CHR '']'') r
                in if quality = [] then None
                   else (case dropWhile (\<lambda>x. x \<noteq> CHR '']'') r of
                           [] \<Rightarrow> None
                         | _ # urlPart \<Rightarrow>
                             if urlPart \<noteq> [] \<and> list_all (\<lambda>x. \<not> line_terminator x) urlPart
                             then Some (quality, urlPart) else None)))"

text \<open>The inner loop: the first of the alternatives that ends with \<open>.m3u8\<close>.\<close>

definition first_m3u8 :: "string list \<Rightarrow> string option" where
  "first_m3u8 urlOptions = find (\<lambda>url. endsWith url ''.m3u8'') urlOptions"

text \<open>One round of the outer loop over the parts.\<close>

definition parse_part :: "string jsobj \<Rightarrow> string \<Rightarrow> string jsobj" where
  "parse_part urls part =
     (case match_quality part of
        None \<Rightarrow> urls
      | Some (quality, urlPart) \<Rightarrow>
          (case first_m3u8 (split_js urlPart '' or '') of
             None \<Rightarrow> urls
           | Some url \<Rightarrow> set_property urls quality url))"

definition parse_decoded :: "string \<Rightarrow> string jsobj" where
  "parse_decoded decoded = foldl parse_part [] (split_js decoded '','')"

definition parseVideoUrls :: "string \<Rightarrow> string jsobj" where
  "parseVideoUrls data = parse_decoded (clearTrash data)"

section \<open>Values of the JSON envelope\<close>

text \<open>
  What \<open>response.json()\<close> yields, with \<open>undefined\<close> for a property that is not there;
  the numbers are those of \<^typ>\<open>number\<close>, which \<open>parseInt\<close> makes of a parameter.
\<close>

datatype jsval =
    JUndefined
  | JNull
  | JBool bool
  | JNum number
  | JStr string
  | JArr "jsval list"
  | JObj "(string \<times> jsval) list"

fun truthy :: "jsval \<Rightarrow> bool" where
  "truthy JUndefined = False"
| "truthy JNull = False"
| "truthy (JBool b) = b"
| "truthy (JNum n) = (n \<noteq> NaN \<and> n \<noteq> Finite 0)"
| "truthy (JStr s) = (s \<noteq> [])"
| "truthy (JArr vs) = True"
| "truthy (JObj ps) = True"

text \<open>
  The errors a call can throw. \<open>Error v\<close> is \<open>new Error(v)\<close>, whose message is \<open>v\<close> as
  a string (\<open>v\<close> itself when it is a string); \<open>NetworkError\<close> is a \<open>fetch\<close> that
  rejects, \<open>SyntaxError\<close> a body that is not JSON, \<open>TypeError\<close> a property read on
  \<open>null\<close> or a call of something that is no function.
\<close>

datatype js_error = NetworkError | SyntaxError | TypeError | Error jsval

text \<open>
  \<open>data.name\<close> for the names the worker reads (\<open>success\<close>, \<open>message\<close>, \<open>url\<close>,
  \<open>subtitle\<close>, \<open>subtitle_lns\<close>): none of them is a member of a prototype, so only an
  object has them, and reading them on \<open>null\<close> throws.
\<close>

fun get_property :: "jsval \<Rightarrow> string \<Rightarrow> js_error + jsval" where
  "get_property JNull k = Inl TypeError"
| "get_property JUndefined k = Inl TypeError"
| "get_property (JObj ps) k = Inr (case map_of ps k of None \<Rightarrow> JUndefined | Some v \<Rightarrow> v)"
| "get_property v k = Inr JUndefined"

text \<open>\<open>Object.entries(v)\<close> for a value that is not null or undefined.\<close>

fun Object_entries :: "jsval \<Rightarrow> (string \<times> jsval) list" where
  "Object_entries (JObj ps) = own_properties ps"
| "Object_entries (JArr vs) = zip (map show_nat [0..<length vs]) vs"
| "Object_entries (JStr s) = zip (map show_nat [0..<length s]) (map (\<lambda>c. JStr [c]) s)"
| "Object_entries v = []"

section \<open>The stream fetcher\<close>

record Subtitle =
  lang :: string
  name :: jsval
  subtitle_url :: jsval

record StreamResult =
  stream_url :: string
  qualities :: "string list"
  subtitles :: "Subtitle list"
  all_urls :: "string jsobj"

text \<open>
  What a \<open>fetch\<close> comes back with: it rejects, or it resolves to a response with a
  status, the body as text and the body as \<open>response.json()\<close> reads it (\<open>None\<close> when
  the body is not JSON). \<open>response.ok\<close> is a status from 200 to 299.
\<close>

record response =
  status :: nat
  body_text :: string
  body_json :: "jsval option"

datatype fetch_result = Rejected | Resolved response

definition ok :: "response \<Rightarrow> bool" where
  "ok r = (200 \<le> status r \<and> status r \<le> 299)"

definition parseSubtitles :: "jsval \<Rightarrow> jsval \<Rightarrow> Subtitle list" where
  "parseSubtitles subtitleData subtitleLns =
     (if truthy subtitleData \<and> truthy subtitleLns
      then map (\<lambda>(code, nm). \<lparr>lang = code, name = nm, subtitle_url = subtitleData\<rparr>)
             (filter (\<lambda>(code, nm). code \<noteq> ''off'') (Object_entries subtitleLns))
      else [])"

text \<open>
  \<open>parseInt(a) || 0\<close>, where NaN and zero are the falsy numbers, and the comparator of
  the sort, \<open>aNum - bNum\<close>.
\<close>

definition quality_num :: "string \<Rightarrow> number" where
  "quality_num a = (let n = parseInt a in if n = NaN \<or> n = Finite 0 then Finite 0 else n)"

definition compare_qualities :: "string \<Rightarrow> string \<Rightarrow> number" where
  "compare_qualities a b = minus_js (quality_num a) (quality_num b)"

text \<open>
  The end of \<open>getStream\<close>, from \<open>videoUrls\<close> and \<open>subtitles\<close> on. With no key,
  \<open>bestQuality\<close> is undefined and \<open>videoUrls[undefined]\<close> is undefined, so that
  \<open>streamUrl\<close> is the empty string.
\<close>

definition best_stream :: "string jsobj \<Rightarrow> Subtitle list \<Rightarrow> StreamResult" where
  "best_stream videoUrls subs =
     (let qs = sort_js compare_qualities (Object_keys videoUrls);
          streamUrl = (if qs = [] then []
                       else (case map_of videoUrls (last qs) of
                               None \<Rightarrow> []
                             | Some u \<Rightarrow> if u = [] then [] else u))
      in \<lparr>stream_url = streamUrl, qualities = qs, subtitles = subs, all_urls = videoUrls\<rparr>)"

text \<open>
  \<open>getStream\<close> after its \<open>fetch\<close>. \<open>parseVideoUrls(data.url)\<close> calls
  \<open>data.url.replace\<close>, which only a string has.
\<close>

definition video_urls_of :: "jsval \<Rightarrow> js_error + string jsobj" where
  "video_urls_of u =
     (if truthy u
      then (case u of JStr t \<Rightarrow> Inr (parseVideoUrls t) | _ \<Rightarrow> Inl TypeError)
      else Inr [])"

definition getStream_response :: "fetch_result \<Rightarrow> js_error + StreamResult" where
  "getStream_response fr =
     (case fr of
        Rejected \<Rightarrow> Inl NetworkError
      | Resolved resp \<Rightarrow>
          if \<not> ok resp
          then Inl (Error (JStr (''AJAX request failed: '' @ show_nat (status resp))))
          else (case body_json resp of
                  None \<Rightarrow> Inl SyntaxError
                | Some data \<Rightarrow>
                    (case get_property data ''success'' of
                       Inl e \<Rightarrow> Inl e
                     | Inr success \<Rightarrow>
                         if \<not> truthy success \<and> success \<noteq> JUndefined
                         then (case get_property data ''message'' of
                                 Inl e \<Rightarrow> Inl e
                               | Inr message \<Rightarrow>
                                   Inl (Error (if truthy message then message
                                               else JStr ''AJAX request failed'')))
                         else (case get_property data ''url'' of
                                 Inl e \<Rightarrow> Inl e
                               | Inr u \<Rightarrow>
                                   (case video_urls_of u of
                                      Inl e \<Rightarrow> Inl e
                                    | Inr videoUrls \<Rightarrow>
                                        (case get_property data ''subtitle'' of
                                           Inl e \<Rightarrow> Inl e
                                         | Inr sd \<Rightarrow>
                                             (case get_property data ''subtitle_lns'' of
                                                Inl e \<Rightarrow> Inl e
                                              | Inr sl \<Rightarrow>
                                                  Inr (best_stream videoUrls
                                                         (parseSubtitles sd sl)))))))))"

section \<open>Pieces of a pattern\<close>

text \<open>
  Where a pattern leaves the matcher a choice, the piece takes the rest of the pattern
  as the continuation \<open>k\<close> and tries its choices in the matcher's order, keeping the
  first with which the rest matches: \<open>greedy_star P\<close> is \<open>[P]*\<close> (the longest run
  first), \<open>lazy_any\<close> is \<open>[\s\S]*?\<close> (the shortest run first), \<open>greedy_capture P []\<close>
  is the group \<open>([P]*)\<close>, whose text the continuation receives.
\<close>

definition lit :: "string \<Rightarrow> (string \<Rightarrow> 'a option) \<Rightarrow> string \<Rightarrow> 'a option" where
  "lit w k s = (if startsWith s w then k (drop (length w) s) else None)"

fun greedy_star :: "(char \<Rightarrow> bool) \<Rightarrow> (string \<Rightarrow> 'a option) \<Rightarrow> string \<Rightarrow> 'a option" where
  "greedy_star P k [] = k []"
| "greedy_star P k (c # cs) =
     (case (if P c then greedy_star P k cs else None) of
        Some r \<Rightarrow> Some r
      | None \<Rightarrow> k (c # cs))"

fun lazy_any :: "(string \<Rightarrow> 'a option) \<Rightarrow> string \<Rightarrow> 'a option" where
  "lazy_any k [] = k []"
| "lazy_any k (c # cs) = (case k (c # cs) of Some r \<Rightarrow> Some r | None \<Rightarrow> lazy_any k cs)"

fun greedy_capture ::
  "(char \<Rightarrow> bool) \<Rightarrow> string \<Rightarrow> (string \<Rightarrow> string \<Rightarrow> 'a option) \<Rightarrow> string \<Rightarrow> 'a option" where
  "greedy_capture P acc k [] = k acc []"
| "greedy_capture P acc k (c # cs) =
     (case (if P c then greedy_capture P (acc @ [c]) k cs else None) of
        Some r \<Rightarrow> Some r
      | None \<Rightarrow> k acc (c # cs))"

text \<open>The group \<open>([P]+)\<close>: as \<open>([P]*)\<close>, but the empty text is no match.\<close>

definition greedy_capture1 ::
  "(char \<Rightarrow> bool) \<Rightarrow> (string \<Rightarrow> string \<Rightarrow> 'a option) \<Rightarrow> string \<Rightarrow> 'a option" where
  "greedy_capture1 P k s = greedy_capture P [] (\<lambda>t r. if t = [] then None else k t r) s"

text \<open>
  A match at the front of \<open>s\<close> yields its groups and what follows the match. A
  continuation \<open>shrinks\<close> when what follows is never longer than what it was given.
\<close>

definition shrinks :: "(string \<Rightarrow> ('a \<times> string) option) \<Rightarrow> bool" where
  "shrinks k = (\<forall>s x r. k s = Some (x, r) \<longrightarrow> length r \<le> length s)"

lemma shrinksD: "shrinks k \<Longrightarrow> k s = Some (x, r) \<Longrightarrow> length r \<le> length s"
  unfolding shrinks_def by blast

lemma shrinks_lit: "shrinks k \<Longrightarrow> lit w k s = Some (x, r) \<Longrightarrow> length r + length w \<le> length s"
  by (fastforce simp: shrinks_def lit_def startsWith_def split: if_splits
      dest: arg_cong [where f = length])

lemma shrinks_lit': "shrinks k \<Longrightarrow> shrinks (lit w k)"
  unfolding shrinks_def [of "lit w k"] using shrinks_lit by fastforce

lemma shrinks_greedy_star: "shrinks k \<Longrightarrow> shrinks (greedy_star P k)"
proof -
  assume k: "shrinks k"
  have "greedy_star P k s = Some (x, r) \<Longrightarrow> length r \<le> length s" for s x r
    using k by (induction s) (fastforce simp: shrinks_def split: option.splits if_splits)+
  then show ?thesis by (simp add: shrinks_def)
qed

lemma shrinks_lazy_any: "shrinks k \<Longrightarrow> shrinks (lazy_any k)"
proof -
  assume k: "shrinks k"
  have "lazy_any k s = Some (x, r) \<Longrightarrow> length r \<le> length s" for s x r
    using k by (induction s) (fastforce simp: shrinks_def split: option.splits)+
  then show ?thesis by (simp add: shrinks_def)
qed

lemma shrinks_greedy_capture: "(\<And>t. shrinks (k t)) \<Longrightarrow> shrinks (greedy_capture P acc k)"
proof -
  assume k: "\<And>t. shrinks (k t)"
  have "greedy_capture P acc k s = Some (x, r) \<Longrightarrow> length r \<le> length s" for s x r acc
  proof (induction s arbitrary: acc)
    case Nil
    then show ?case using k [of acc] by (fastforce simp: shrinks_def)
  next
    case (Cons c cs)
    then show ?case using k [of acc]
      by (fastforce simp: shrinks_def split: option.splits if_splits)
  qed
  then show ?thesis by (simp add: shrinks_def)
qed

lemma shrinks_greedy_capture1: "(\<And>t. shrinks (k t)) \<Longrightarrow> shrinks (greedy_capture1 P k)"
  unfolding greedy_capture1_def
  by (rule shrinks_greedy_capture) (simp add: shrinks_def)

lemma shrinks_Some: "shrinks (\<lambda>r. Some (x, r))"
  by (simp add: shrinks_def)

section \<open>The content-info extractor\<close>

text \<open>
  \<open>name="(\d+)"\<close> at the front of \<open>s\<close>: the digits and what follows the closing
  quote. The digits are the whole run, since a quote has to follow them.
\<close>

definition attr_at :: "string \<Rightarrow> string \<Rightarrow> (string \<times> string) option" where
  "attr_at nm s =
     (let w = nm @ ''='' @ [dq]
      in if startsWith s w
         then (let r = drop (length w) s;
                   ds = takeWhile is_digit r;
                   r2 = dropWhile is_digit r
               in if ds \<noteq> [] \<and> startsWith r2 [dq] then Some (ds, drop 1 r2) else None)
         else None)"

text \<open>\<open>html.match(/name="(\d+)"/)\<close>: the group of the leftmost match, or null.\<close>

fun first_attr :: "string \<Rightarrow> string \<Rightarrow> string option" where
  "first_attr nm [] = None"
| "first_attr nm (c # cs) =
     (case attr_at nm (c # cs) of Some (ds, r) \<Rightarrow> Some ds | None \<Rightarrow> first_attr nm cs)"

text \<open>
  \<open>/data-translator_id="(\d+)"[^>]*>([^<]+)</g\<close> at the front of \<open>s\<close>: the tag runs
  to its first \<open>>\<close> and the name to the first \<open><\<close>.
\<close>

definition not_gt :: "char \<Rightarrow> bool" where
  "not_gt c = (c \<noteq> CHR ''>'')"

definition not_lt :: "char \<Rightarrow> bool" where
  "not_lt c = (c \<noteq> CHR ''<'')"

definition not_dq :: "char \<Rightarrow> bool" where
  "not_dq c = (c \<noteq> dq)"

definition translator_at :: "string \<Rightarrow> ((string \<times> string) \<times> string) option" where
  "translator_at s =
     (case attr_at ''data-translator_id'' s of
        None \<Rightarrow> None
      | Some (ds, r) \<Rightarrow>
          greedy_star not_gt
            (lit ''>'' (greedy_capture1 not_lt (\<lambda>nm. lit ''<'' (\<lambda>r3. Some ((ds, nm), r3))))) r)"

text \<open>
  \<open>/data-season_id="(\d+)"[^>]*data-episode_id="(\d+)"/g\<close> at the front of \<open>s\<close>: the
  greedy \<open>[^>]*\<close> makes it the last episode marker before the next \<open>>\<close>.
\<close>

definition episode_at :: "string \<Rightarrow> ((string \<times> string) \<times> string) option" where
  "episode_at s =
     (case attr_at ''data-season_id'' s of
        None \<Rightarrow> None
      | Some (seasonId, r) \<Rightarrow>
          greedy_star not_gt
            (\<lambda>r2. case attr_at ''data-episode_id'' r2 of
                    None \<Rightarrow> None
                  | Some (ep, r3) \<Rightarrow> Some ((seasonId, ep), r3)) r)"

lemma attr_at_shorter: "attr_at nm s = Some (ds, r) \<Longrightarrow> length r < length s"
proof -
  assume a: "attr_at nm s = Some (ds, r)"
  let ?w = "nm @ ''='' @ [dq]"
  from a have w: "take (length ?w) s = ?w"
    and r: "r = drop 1 (dropWhile is_digit (drop (length ?w) s))"
    by (auto simp: attr_at_def Let_def startsWith_def split: if_splits)
  from w have "length (take (length ?w) s) = length ?w" by simp
  then have "length ?w \<le> length s" by simp
  moreover have "length r \<le> length s - length ?w"
    unfolding r using length_dropWhile_le [of is_digit "drop (length ?w) s"] by simp
  ultimately show ?thesis by simp
qed

lemma shrinks_attr_at: "shrinks (attr_at nm)"
  using attr_at_shorter by (fastforce simp: shrinks_def)

lemma translator_at_shorter: "translator_at s = Some (x, r) \<Longrightarrow> length r < length s"
proof -
  assume t: "translator_at s = Some (x, r)"
  then obtain ds r1 where a: "attr_at ''data-translator_id'' s = Some (ds, r1)"
    and g: "greedy_star not_gt
            (lit ''>'' (greedy_capture1 not_lt (\<lambda>nm. lit ''<'' (\<lambda>r3. Some ((ds, nm), r3))))) r1
            = Some (x, r)"
    by (auto simp: translator_at_def split: option.splits)
  have "shrinks (greedy_star not_gt
            (lit ''>'' (greedy_capture1 not_lt (\<lambda>nm. lit ''<'' (\<lambda>r3. Some ((ds, nm), r3))))))"
    by (intro shrinks_greedy_star shrinks_lit' shrinks_greedy_capture1 shrinks_Some)
  from shrinksD [OF this g] have "length r \<le> length r1" .
  with attr_at_shorter [OF a] show ?thesis by simp
qed

lemma episode_at_shorter: "episode_at s = Some (x, r) \<Longrightarrow> length r < length s"
proof -
  assume t: "episode_at s = Some (x, r)"
  then obtain sid r1 where a: "attr_at ''data-season_id'' s = Some (sid, r1)"
    and g: "greedy_star not_gt
            (\<lambda>r2. case attr_at ''data-episode_id'' r2 of
                    None \<Rightarrow> None
                  | Some (ep, r3) \<Rightarrow> Some ((sid, ep), r3)) r1 = Some (x, r)"
    by (auto simp: episode_at_def split: option.splits)
  have "shrinks (\<lambda>r2. case attr_at ''data-episode_id'' r2 of
                    None \<Rightarrow> None
                  | Some (ep, r3) \<Rightarrow> Some ((sid, ep), r3))"
    using attr_at_shorter by (fastforce simp: shrinks_def split: option.splits)
  then have "shrinks (greedy_star not_gt
            (\<lambda>r2. case attr_at ''data-episode_id'' r2 of
                    None \<Rightarrow> None
                  | Some (ep, r3) \<Rightarrow> Some ((sid, ep), r3)))"
    by (rule shrinks_greedy_star)
  from shrinksD [OF this g] have "length r \<le> length r1" .
  with attr_at_shorter [OF a] show ?thesis by simp
qed

text \<open>
  The loops \<open>while ((match = regex.exec(html)) !== null)\<close>: the leftmost match from
  \<open>lastIndex\<close> on, then on from the end of that match.
\<close>

function scan_translators :: "string \<Rightarrow> (string \<times> string) list" where
  "scan_translators [] = []"
| "scan_translators (c # cs) =
     (case translator_at (c # cs) of
        Some (m, rest) \<Rightarrow> m # scan_translators rest
      | None \<Rightarrow> scan_translators cs)"
  by pat_completeness auto
termination
  by (relation "measure length") (auto dest: translator_at_shorter)

function scan_episodes :: "string \<Rightarrow> (string \<times> string) list" where
  "scan_episodes [] = []"
| "scan_episodes (c # cs) =
     (case episode_at (c # cs) of
        Some (m, rest) \<Rightarrow> m # scan_episodes rest
      | None \<Rightarrow> scan_episodes cs)"
  by pat_completeness auto
termination
  by (relation "measure length") (auto dest: episode_at_shorter)

text \<open>
  One round of the loop over the episode matches. The season ids are digits, so no key
  is a member of \<open>Object.prototype\<close>; an array is truthy, so \<open>!seasons[seasonId]\<close> asks
  whether the key is there; \<open>includes\<close> compares numbers, NaN equal to itself.
\<close>

definition add_episode :: "number list jsobj \<Rightarrow> string \<times> string \<Rightarrow> number list jsobj" where
  "add_episode seasons m =
     (let seasonId = fst m;
          episodeId = parseInt (snd m);
          seasons1 = (case map_of seasons seasonId of
                        None \<Rightarrow> obj_update seasonId [] seasons
                      | Some l \<Rightarrow> seasons);
          eps = (case map_of seasons1 seasonId of None \<Rightarrow> [] | Some l \<Rightarrow> l)
      in if episodeId \<in> set eps then seasons1
         else obj_update seasonId (eps @ [episodeId]) seasons1)"

record Translator =
  translator_id :: number
  translator_name :: string

record ContentInfo =
  contentId :: "string option"
  translatorId :: "string option"
  isSeries :: bool
  translators :: "Translator list"
  seasons :: "number list jsobj"

text \<open>\<open>getContentInfo(url)\<close> after its \<open>fetch\<close>.\<close>

definition getContentInfo_response :: "string \<Rightarrow> fetch_result \<Rightarrow> js_error + ContentInfo" where
  "getContentInfo_response url fr =
     (case fr of
        Rejected \<Rightarrow> Inl NetworkError
      | Resolved resp \<Rightarrow>
          if \<not> ok resp
          then Inl (Error (JStr (''Failed to fetch page: '' @ show_nat (status resp))))
          else (let html = body_text resp;
                    series = (includes_js html ''sof.tv'' \<or> includes_js html ''data-season_id''
                              \<or> includes_js url ''/series/'')
                in Inr \<lparr>contentId = first_attr ''data-id'' html,
                        translatorId = first_attr ''data-translator_id'' html,
                        isSeries = series,
                        translators =
                          map (\<lambda>m. \<lparr>translator_id = parseInt (fst m),
                                    translator_name = trim (snd m)\<rparr>)
                            (scan_translators html),
                        seasons = (if series then foldl add_episode [] (scan_episodes html)
                                   else [])\<rparr>))"

section \<open>Search\<close>

text \<open>
  \<open>itemRegex\<close> at the front of \<open>s\<close>, piece by piece in the order of the pattern
  \<^verbatim>\<open><div class="b-content__inline_item"[^>]*data-url="([^"]+)"[^>]*>[\s\S]*?<img[^>]*src="([^"]+)"[\s\S]*?<div class="b-content__inline_item-link">\s*<a[^>]*>([^<]+)<\/a>[\s\S]*?<div>([^<]*)<\/div>\<close>:
  the four groups and what follows the match.
\<close>

definition item_info ::
  "string \<Rightarrow> string \<Rightarrow> string \<Rightarrow> string
     \<Rightarrow> ((string \<times> string \<times> string \<times> string) \<times> string) option" where
  "item_info g1 g2 g3 =
     lazy_any
       (lit ''<div>''
         (greedy_capture not_lt [] (\<lambda>g4.
           lit ''</div>'' (\<lambda>rest. Some ((g1, g2, g3, g4), rest)))))"

definition item_title ::
  "string \<Rightarrow> string \<Rightarrow> string
     \<Rightarrow> ((string \<times> string \<times> string \<times> string) \<times> string) option" where
  "item_title g1 g2 =
     lazy_any
       (lit (''<div class='' @ [dq] @ ''b-content__inline_item-link'' @ [dq] @ ''>'')
         (greedy_star js_space
           (lit ''<a''
             (greedy_star not_gt
               (lit ''>''
                 (greedy_capture1 not_lt (\<lambda>g3. lit ''</a>'' (item_info g1 g2 g3))))))))"

definition item_poster ::
  "string \<Rightarrow> string \<Rightarrow> ((string \<times> string \<times> string \<times> string) \<times> string) option" where
  "item_poster g1 =
     lazy_any
       (lit ''<img''
         (greedy_star not_gt
           (lit (''src='' @ [dq])
             (greedy_capture1 not_dq (\<lambda>g2. lit [dq] (item_title g1 g2))))))"

definition item_at :: "string \<Rightarrow> ((string \<times> string \<times> string \<times> string) \<times> string) option" where
  "item_at =
     lit (''<div class='' @ [dq] @ ''b-content__inline_item'' @ [dq])
       (greedy_star not_gt
         (lit (''data-url='' @ [dq])
           (greedy_capture1 not_dq (\<lambda>g1.
             lit [dq] (greedy_star not_gt (lit ''>'' (item_poster g1)))))))"

lemma shrinks_item_info: "shrinks (item_info g1 g2 g3)"
  unfolding item_info_def
  by (intro shrinks_greedy_star shrinks_lit' shrinks_greedy_capture1
      shrinks_greedy_capture shrinks_lazy_any shrinks_Some)

lemma shrinks_item_title: "shrinks (item_title g1 g2)"
  unfolding item_title_def
  by (intro shrinks_greedy_star shrinks_lit' shrinks_greedy_capture1
      shrinks_greedy_capture shrinks_lazy_any shrinks_item_info)

lemma shrinks_item_poster: "shrinks (item_poster g1)"
  unfolding item_poster_def
  by (intro shrinks_greedy_star shrinks_lit' shrinks_greedy_capture1
      shrinks_greedy_capture shrinks_lazy_any shrinks_item_title)

lemma item_at_shorter: "item_at s = Some (x, r) \<Longrightarrow> length r < length s"
proof -
  assume a: "item_at s = Some (x, r)"
  have "shrinks (greedy_star not_gt
         (lit (''data-url='' @ [dq])
           (greedy_capture1 not_dq (\<lambda>g1.
             lit [dq] (greedy_star not_gt (lit ''>'' (item_poster g1)))))))"
    by (intro shrinks_greedy_star shrinks_lit' shrinks_greedy_capture1 shrinks_item_poster)
  from shrinks_lit [OF this a [unfolded item_at_def]] show ?thesis by simp
qed

function scan_items :: "string \<Rightarrow> (string \<times> string \<times> string \<times> string) list" where
  "scan_items [] = []"
| "scan_items (c # cs) =
     (case item_at (c # cs) of
        Some (m, rest) \<Rightarrow> m # scan_items rest
      | None \<Rightarrow> scan_items cs)"
  by pat_completeness auto
termination
  by (relation "measure length") (auto dest: item_at_shorter)

text \<open>\<open>info.match(/(\d{4})/)\<close>: the leftmost four digits in a row, or null.\<close>

fun first_year :: "string \<Rightarrow> string option" where
  "first_year [] = None"
| "first_year (c # cs) =
     (if 4 \<le> length (c # cs) \<and> list_all is_digit (take 4 (c # cs))
      then Some (take 4 (c # cs)) else first_year cs)"

text \<open>The body of the loop: the entry made of the four groups of one match.\<close>

definition content_type :: "string \<Rightarrow> string" where
  "content_type url =
     (if includes_js url ''/series/'' then ''series''
      else if includes_js url ''/cartoons/''
           then (if includes_js url ''-sezon'' then ''series'' else ''movie'')
      else ''movie'')"

record SearchResult =
  url :: string
  title :: string
  contentType :: string
  year :: "string option"
  poster :: string

definition search_entry :: "string \<times> string \<times> string \<times> string \<Rightarrow> SearchResult" where
  "search_entry m =
     (case m of (g1, g2, g3, g4) \<Rightarrow>
        \<lparr>url = g1, title = trim g3, contentType = content_type g1,
         year = first_year (trim g4), poster = g2\<rparr>)"

text \<open>\<open>searchContent(query)\<close> after its \<open>fetch\<close>.\<close>

definition searchContent_response :: "fetch_result \<Rightarrow> js_error + SearchResult list" where
  "searchContent_response fr =
     (case fr of
        Rejected \<Rightarrow> Inl NetworkError
      | Resolved resp \<Rightarrow>
          if \<not> ok resp
          then Inl (Error (JStr (''Search failed: '' @ show_nat (status resp))))
          else Inr (map search_entry (scan_items (body_text resp))))"

section \<open>The request handler\<close>

text \<open>
  The requests the worker sends: the GET of a content page, the GET of the search page
  for a query, and the form POST to \<open>/ajax/get_cdn_series/\<close>, given by the fields
  appended to the form in their order (a value is turned into a string when it is
  appended: \<open>null\<close> becomes \<open>null\<close>, NaN becomes \<open>NaN\<close>; the fields here are the
  values before that). The headers are constants.
\<close>

datatype outbound =
    GetPage string
  | GetSearch string
  | PostStream "(string \<times> jsval) list"

text \<open>
  \<open>getStream(contentId, translatorId, season = null, episode = null)\<close> up to its
  \<open>fetch\<close>: a default parameter stands in for an argument that is undefined.
\<close>

definition default_null :: "jsval \<Rightarrow> jsval" where
  "default_null v = (if v = JUndefined then JNull else v)"

definition stream_form :: "string \<Rightarrow> jsval \<Rightarrow> jsval \<Rightarrow> jsval \<Rightarrow> (string \<times> jsval) list" where
  "stream_form cid tid season0 episode0 =
     (let season = default_null season0; episode = default_null episode0
      in [(''id'', JStr cid), (''translator_id'', tid)]
         @ (if season \<noteq> JNull \<and> episode \<noteq> JNull
            then [(''action'', JStr ''get_stream''), (''season'', season), (''episode'', episode)]
            else [(''action'', JStr ''get_movie'')]))"

text \<open>
  A call of \<open>fetch\<close>: the request goes out and the answer of the network comes back.
  Sending a request is an effect, so \<open>fetch\<close> and every function that calls it return,
  beside their result, the requests they have sent, in the order of sending; \<open>net\<close> is
  what the network answers to a request.
\<close>

type_synonym network = "outbound \<Rightarrow> fetch_result"

definition fetch_js :: "network \<Rightarrow> outbound \<Rightarrow> outbound list \<times> fetch_result" where
  "fetch_js net req = ([req], net req)"

definition getContentInfo :: "network \<Rightarrow> string \<Rightarrow> outbound list \<times> (js_error + ContentInfo)" where
  "getContentInfo net page =
     (case fetch_js net (GetPage page) of
        (sent, fr) \<Rightarrow> (sent, getContentInfo_response page fr))"

definition getStream ::
  "network \<Rightarrow> string \<Rightarrow> jsval \<Rightarrow> jsval \<Rightarrow> jsval \<Rightarrow> outbound list \<times> (js_error + StreamResult)" where
  "getStream net cid tid season episode =
     (case fetch_js net (PostStream (stream_form cid tid season episode)) of
        (sent, fr) \<Rightarrow> (sent, getStream_response fr))"

definition searchContent :: "network \<Rightarrow> string \<Rightarrow> outbound list \<times> (js_error + SearchResult list)" where
  "searchContent net query =
     (case fetch_js net (GetSearch query) of
        (sent, fr) \<Rightarrow> (sent, searchContent_response fr))"

text \<open>
  A request to the worker: its method, the path of its URL and the query parameters in
  their order; \<open>searchParams.get\<close> is the first value of a name, or null.
\<close>

record worker_request =
  req_method :: string
  req_path :: string
  req_params :: "(string \<times> string) list"

datatype reply_body =
    NoBody
  | HealthBody
  | ErrorBody string
  | ThrownBody js_error
  | SearchBody string "SearchResult list"
  | ContentBody string "Translator list" "number list jsobj" bool
  | StreamBody StreamResult

record reply =
  reply_status :: nat
  reply_body :: reply_body

text \<open>\<open>season ? parseInt(season) : null\<close>, for a parameter that is a string or null.\<close>

definition number_param :: "string option \<Rightarrow> jsval" where
  "number_param p =
     (case p of
        None \<Rightarrow> JNull
      | Some v \<Rightarrow> if v = [] then JNull else JNum (parseInt v))"

text \<open>\<open>translatorId || info.translatorId\<close>.\<close>

definition chosen_translator :: "string option \<Rightarrow> string option \<Rightarrow> jsval" where
  "chosen_translator param found =
     (let fallback = (case found of None \<Rightarrow> JNull | Some p \<Rightarrow> JStr p)
      in case param of
           None \<Rightarrow> fallback
         | Some t \<Rightarrow> if t \<noteq> [] then JStr t else fallback)"

text \<open>
  The handler: the requests it has sent and its response. An error thrown below it is
  caught and answered with 500 and the error's message.
\<close>

definition handle_stream :: "network \<Rightarrow> (string \<times> string) list \<Rightarrow> outbound list \<times> reply" where
  "handle_stream net params =
     (let contentUrl = map_of params ''url'';
          season = map_of params ''season'';
          episode = map_of params ''episode'';
          translatorId = map_of params ''translator_id''
      in case contentUrl of
           None \<Rightarrow> ([], \<lparr>reply_status = 400, reply_body = ErrorBody ''Missing url parameter''\<rparr>)
         | Some page \<Rightarrow>
             if page = []
             then ([], \<lparr>reply_status = 400, reply_body = ErrorBody ''Missing url parameter''\<rparr>)
             else (case getContentInfo net page of
                     (sent, Inl e) \<Rightarrow> (sent, \<lparr>reply_status = 500, reply_body = ThrownBody e\<rparr>)
                   | (sent, Inr info) \<Rightarrow>
                       (case contentId info of
                          None \<Rightarrow>
                            (sent,
                             \<lparr>reply_status = 404,
                              reply_body = ErrorBody ''Could not find content ID''\<rparr>)
                        | Some cid \<Rightarrow>
                            if cid = []
                            then (sent,
                                  \<lparr>reply_status = 404,
                                   reply_body = ErrorBody ''Could not find content ID''\<rparr>)
                            else (let tid = chosen_translator translatorId
                                              (ContentInfo.translatorId info)
                                  in case getStream net cid tid (number_param season)
                                            (number_param episode) of
                                       (sent2, Inl e) \<Rightarrow>
                                         (sent @ sent2,
                                          \<lparr>reply_status = 500, reply_body = ThrownBody e\<rparr>)
                                     | (sent2, Inr stream) \<Rightarrow>
                                         (sent @ sent2,
                                          \<lparr>reply_status = 200,
                                           reply_body = StreamBody stream\<rparr>)))))"

definition fetch_handler :: "network \<Rightarrow> worker_request \<Rightarrow> outbound list \<times> reply" where
  "fetch_handler net request =
     (let path = req_path request; params = req_params request
      in if req_method request = ''OPTIONS'' then ([], \<lparr>reply_status = 200, reply_body = NoBody\<rparr>)
         else if path = ''/health'' \<or> path = ''/''
         then ([], \<lparr>reply_status = 200, reply_body = HealthBody\<rparr>)
         else if path = ''/api/search''
         then (case map_of params ''q'' of
                 None \<Rightarrow>
                   ([], \<lparr>reply_status = 400, reply_body = ErrorBody ''Missing query parameter''\<rparr>)
               | Some query \<Rightarrow>
                   if query = []
                   then ([], \<lparr>reply_status = 400,
                              reply_body = ErrorBody ''Missing query parameter''\<rparr>)
                   else (case searchContent net query of
                           (sent, Inl e) \<Rightarrow>
                             (sent, \<lparr>reply_status = 500, reply_body = ThrownBody e\<rparr>)
                         | (sent, Inr results) \<Rightarrow>
                             (sent, \<lparr>reply_status = 200,
                                     reply_body = SearchBody query results\<rparr>)))
         else if path = ''/api/content''
         then (case map_of params ''url'' of
                 None \<Rightarrow>
                   ([], \<lparr>reply_status = 400, reply_body = ErrorBody ''Missing url parameter''\<rparr>)
               | Some page \<Rightarrow>
                   if page = []
                   then ([], \<lparr>reply_status = 400,
                              reply_body = ErrorBody ''Missing url parameter''\<rparr>)
                   else (case getContentInfo net page of
                           (sent, Inl e) \<Rightarrow>
                             (sent, \<lparr>reply_status = 500, reply_body = ThrownBody e\<rparr>)
                         | (sent, Inr info) \<Rightarrow>
                             (sent, \<lparr>reply_status = 200,
                                     reply_body = ContentBody page (translators info)
                                                    (seasons info) (isSeries info)\<rparr>)))
         else if path = ''/api/stream'' then handle_stream net params
         else ([], \<lparr>reply_status = 404, reply_body = ErrorBody ''Not found''\<rparr>))"

section \<open>Notions and fixtures for the statements\<close>

text \<open>
  The envelope's explicit failure flag, \<open>!data.success && data.success !== undefined\<close>,
  and a \<open>url\<close> that is truthy and no string.
\<close>

definition failure_flag :: "jsval \<Rightarrow> bool" where
  "failure_flag data =
     (case get_property data ''success'' of
        Inl e \<Rightarrow> False
      | Inr sv \<Rightarrow> \<not> truthy sv \<and> sv \<noteq> JUndefined)"

definition unusable_url :: "jsval \<Rightarrow> bool" where
  "unusable_url data =
     (case get_property data ''url'' of
        Inl e \<Rightarrow> False
      | Inr u \<Rightarrow> truthy u \<and> (case u of JStr t \<Rightarrow> False | _ \<Rightarrow> True))"

text \<open>
  The order of the numbers, \<open>x <= y\<close>, which is false when one of them is NaN, and a
  key that has this order on the numbers other than NaN: pairs, compared first by their
  first component.
\<close>

fun num_le :: "number \<Rightarrow> number \<Rightarrow> bool" where
  "num_le (Finite a) (Finite b) = (a \<le> b)"
| "num_le NaN y = False"
| "num_le x NaN = False"
| "num_le NegInfinity y = True"
| "num_le x PosInfinity = True"
| "num_le x y = False"

fun number_rank :: "number \<Rightarrow> int \<times> int" where
  "number_rank NegInfinity = (- 1, 0)"
| "number_rank (Finite i) = (0, i)"
| "number_rank PosInfinity = (1, 0)"
| "number_rank NaN = (0, 0)"

definition quality_rank :: "string \<Rightarrow> int \<times> int" where
  "quality_rank a = number_rank (quality_num a)"

text \<open>
  What may follow the leading digits of a label for the digits to be read in decimal
  and to their end: nothing, or a character that is no digit and no \<open>x\<close>. And the
  labels that begin with no digit, sign or white space.
\<close>

definition plain_tail :: "string \<Rightarrow> bool" where
  "plain_tail rest =
     (rest = [] \<or> (\<not> is_digit (hd rest) \<and> hd rest \<noteq> CHR ''x'' \<and> hd rest \<noteq> CHR ''X''))"

definition non_numeric :: "string \<Rightarrow> bool" where
  "non_numeric l =
     (l = [] \<or> (\<not> is_digit (hd l) \<and> \<not> js_space (hd l) \<and> hd l \<noteq> CHR ''-''
                 \<and> hd l \<noteq> CHR ''+''))"

text \<open>A label whose value no label of the mapping exceeds.\<close>

definition top_valued :: "string jsobj \<Rightarrow> string \<Rightarrow> bool" where
  "top_valued v k = (\<forall>j \<in> set (map fst v). num_le (quality_num j) (quality_num k))"

text \<open>What one part of the payload yields: the body of the parser's outer loop up to
  the assignment.\<close>

definition part_binding :: "string \<Rightarrow> (string \<times> string) option" where
  "part_binding part =
     (case match_quality part of
        None \<Rightarrow> None
      | Some (quality, urlPart) \<Rightarrow>
          (case first_m3u8 (split_js urlPart '' or '') of
             None \<Rightarrow> None
           | Some u \<Rightarrow> Some (quality, u)))"

text \<open>
  The labels that the parts of a decoded payload yield, in their order, a label as often
  as parts yield it; the label \<open>__proto__\<close>, which makes no property, is left out.
\<close>

definition payload_labels :: "string \<Rightarrow> string list" where
  "payload_labels d =
     filter (\<lambda>q. q \<noteq> ''__proto__'')
       (map fst (List.map_filter part_binding (split_js d '','')))"

text \<open>
  The standard base64 encoder (RFC 4648, with padding), which the worker does not
  contain: the round trip of the deobfuscator is stated with it.
\<close>

definition b64_char :: "nat \<Rightarrow> char" where
  "b64_char n =
     (if n < 26 then char_of (65 + n)
      else if n < 52 then char_of (71 + n)
      else if n < 62 then char_of (n - 4)
      else if n = 62 then CHR ''+''
      else CHR ''/'')"

fun sextets :: "string \<Rightarrow> nat list" where
  "sextets [] = []"
| "sextets [x] = (let n = of_char x * 16 in [n div 64, n mod 64])"
| "sextets [x, y] =
     (let n = (of_char x * 256 + of_char y) * 4 in [n div 4096, n div 64 mod 64, n mod 64])"
| "sextets (x # y # z # r) =
     (let n = (of_char x * 256 + of_char y) * 256 + of_char z
      in n div 262144 # n div 4096 mod 64 # n div 64 mod 64 # n mod 64 # sextets r)"

fun padding :: "string \<Rightarrow> string" where
  "padding [] = []"
| "padding [x] = ''==''"
| "padding [x, y] = ''=''"
| "padding (x # y # z # r) = padding r"

definition base64_encode :: "string \<Rightarrow> string" where
  "base64_encode s = map b64_char (sextets s) @ padding s"

text \<open>
  A token with junk interspersed: the characters of the payload in their order, with
  markers put between them anywhere. A marker is the separator \<open>//_//\<close> or four
  characters that the third or the fourth alternative of the pattern matches.
  \<open>junk_free\<close> says that no four characters in a row of a text are such a marker.
\<close>

datatype piece = Payload char | Junk string

definition is_marker :: "string \<Rightarrow> bool" where
  "is_marker m = (m = ''//_//'' \<or> (case m of [a, b, c, d] \<Rightarrow> trash4 a b c d | _ \<Rightarrow> False))"

fun valid_piece :: "piece \<Rightarrow> bool" where
  "valid_piece (Payload c) = True"
| "valid_piece (Junk m) = is_marker m"

fun token_of :: "piece list \<Rightarrow> string" where
  "token_of [] = []"
| "token_of (Payload c # ps) = c # token_of ps"
| "token_of (Junk m # ps) = m @ token_of ps"

fun payload_of :: "piece list \<Rightarrow> string" where
  "payload_of [] = []"
| "payload_of (Payload c # ps) = c # payload_of ps"
| "payload_of (Junk m # ps) = payload_of ps"

fun junk_free :: "string \<Rightarrow> bool" where
  "junk_free (a # b # c # d # r) = (\<not> trash4 a b c d \<and> junk_free (b # c # d # r))"
| "junk_free r = True"

text \<open>The first two characters of a marker, and the last two of a four-character one.\<close>

definition marker_start :: "char \<Rightarrow> char \<Rightarrow> bool" where
  "marker_start a b = ((a = CHR ''/'' \<and> b = CHR ''/'') \<or> trash_head1 a b \<or> trash_head2 a b)"

definition trash_tail :: "char \<Rightarrow> char \<Rightarrow> bool" where
  "trash_tail c d = (trash_tail1 c d \<or> trash_tail2 c d)"

text \<open>Responses of the upstream.\<close>

definition fixture_garbled :: response where
  "fixture_garbled = \<lparr>status = 200, body_text = [],
     body_json = Some (JObj [(''success'', JBool True), (''url'', JStr ''!!!'')])\<rparr>"

definition fixture_no_url :: response where
  "fixture_no_url = \<lparr>status = 200, body_text = [],
     body_json = Some (JObj [(''success'', JBool True)])\<rparr>"

definition fixture_bad_url :: response where
  "fixture_bad_url = \<lparr>status = 200, body_text = [],
     body_json = Some (JObj [(''success'', JBool True), (''url'', JNum (Finite 5))])\<rparr>"

definition fixture_rejected :: response where
  "fixture_rejected = \<lparr>status = 200, body_text = [],
     body_json = Some (JObj [(''success'', JBool False), (''message'', JStr ''Time out'')])\<rparr>"

definition fixture_forbidden :: response where
  "fixture_forbidden = \<lparr>status = 403, body_text = [], body_json = None\<rparr>"

text \<open>
  A response of the upstream whose envelope carries the token of
  \<open>[720]a.m3u8,[1080]b.m3u8\<close> behind the \<open>#h\<close> prefix.
\<close>

definition fixture_two_qualities :: fetch_result where
  "fixture_two_qualities = Resolved \<lparr>status = 200, body_text = [],
     body_json = Some (JObj [(''success'', JBool True),
       (''url'', JStr ''#hWzcyMF1hLm0zdTgsWzEwODBdYi5tM3U4'')])\<rparr>"

text \<open>
  An envelope whose token is the base64 text of \<open>[1080p]a.m3u8,[1080]b.m3u8\<close>: the
  label \<open>1080p\<close> comes first in the payload, the label \<open>1080\<close> comes later, and both
  parse to 1080.
\<close>

definition fixture_tie :: fetch_result where
  "fixture_tie = Resolved \<lparr>status = 200, body_text = [],
     body_json = Some (JObj [(''success'', JBool True),
       (''url'', JStr ''WzEwODBwXWEubTN1OCxbMTA4MF1iLm0zdTg='')])\<rparr>"

text \<open>
  The answer of the upstream with a given token, and four tokens: the base64 texts of
  \<open>[720p]a.m3u8,[360p]b.m3u8\<close>, where the better label comes first; of
  \<open>[__proto__]a.m3u8\<close>; of \<open>[9007199254740993]a.m3u8,[9007199254740992]b.m3u8\<close>,
  two labels that are the same double; and of
  \<open>[720p]a.m3u8,[2160p]b.m3u8,[auto]c.m3u8,[1080]d.m3u8,[720p]e.m3u8,[480]f.m3u8\<close>.
\<close>

definition stream_envelope :: "string \<Rightarrow> fetch_result" where
  "stream_envelope token = Resolved \<lparr>status = 200, body_text = [],
     body_json = Some (JObj [(''success'', JBool True), (''url'', JStr token)])\<rparr>"

definition token_unsorted :: string where
  "token_unsorted = ''WzcyMHBdYS5tM3U4LFszNjBwXWIubTN1OA==''"

definition token_proto :: string where
  "token_proto = ''W19fcHJvdG9fX11hLm0zdTg=''"

definition token_rounded :: string where
  "token_rounded = ''WzkwMDcxOTkyNTQ3NDA5OTNdYS5tM3U4LFs5MDA3MTk5MjU0NzQwOTkyXWIubTN1OA==''"

definition token_mixed :: string where
  "token_mixed = ''WzcyMHBdYS5tM3U4LFsyMTYwcF1iLm0zdTgsW2F1dG9dYy5tM3U4LFsxMDgwXWQubTN1OCxbNzIwcF1lLm0zdTgsWzQ4MF1mLm0zdTg=''"

text \<open>
  Notions of the statements about a page: the text \<open>name="value"\<close>; a value that is a
  run of digits; the value of the first such marker in a page, and a page with none.
\<close>

definition attr :: "string \<Rightarrow> string \<Rightarrow> string" where
  "attr nm v = nm @ ''='' @ [dq] @ v @ [dq]"

definition numeric :: "string \<Rightarrow> bool" where
  "numeric ds = (ds \<noteq> [] \<and> list_all is_digit ds)"

definition first_occurrence :: "string \<Rightarrow> string \<Rightarrow> string \<Rightarrow> bool" where
  "first_occurrence nm html ds =
     (\<exists>pre post. html = pre @ attr nm ds @ post \<and> numeric ds
        \<and> (\<forall>pre' ds' post'. html = pre' @ attr nm ds' @ post' \<and> numeric ds'
              \<longrightarrow> length pre \<le> length pre'))"

definition no_occurrence :: "string \<Rightarrow> string \<Rightarrow> bool" where
  "no_occurrence nm html = (\<forall>pre ds post. html = pre @ attr nm ds @ post \<longrightarrow> \<not> numeric ds)"

text \<open>
  A list extended by the elements of another that it does not have yet, each once and in
  the order of their first appearance.
\<close>

definition dedup_into :: "'a list \<Rightarrow> 'a list \<Rightarrow> 'a list" where
  "dedup_into l xs = foldl (\<lambda>a x. if x \<in> set a then a else a @ [x]) l xs"

text \<open>
  A text that contains another; four digits in a row; the first four digits in a row of
  a text, and a text with none.
\<close>

definition contains :: "string \<Rightarrow> string \<Rightarrow> bool" where
  "contains s w = (\<exists>pre post. s = pre @ w @ post)"

definition four_digits :: "string \<Rightarrow> bool" where
  "four_digits y = (length y = 4 \<and> list_all is_digit y)"

definition first_four_digits :: "string \<Rightarrow> string \<Rightarrow> bool" where
  "first_four_digits info y =
     (\<exists>pre post. info = pre @ y @ post \<and> four_digits y
        \<and> (\<forall>pre' y' post'. info = pre' @ y' @ post' \<and> four_digits y'
              \<longrightarrow> length pre \<le> length pre'))"

definition no_four_digits :: "string \<Rightarrow> bool" where
  "no_four_digits info = (\<forall>pre y post. info = pre @ y @ post \<longrightarrow> \<not> four_digits y)"

text \<open>
  Pages of the upstream: a film page with a content id and one translator, a page with
  no marker, a series page with one episode, a series page whose episodes come out of
  order and twice, and a search page with one result.
\<close>

definition fixture_movie_page :: response where
  "fixture_movie_page = \<lparr>status = 200,
     body_text = ''<div '' @ attr ''data-id'' ''123'' @ ''></div><li ''
       @ attr ''data-translator_id'' ''4'' @ ''>Dub </li><li '' @ attr ''data-id'' ''77'' @ ''>'',
     body_json = None\<rparr>"

definition fixture_blank_page :: response where
  "fixture_blank_page = \<lparr>status = 200, body_text = ''<html></html>'', body_json = None\<rparr>"

definition fixture_series_page :: response where
  "fixture_series_page = \<lparr>status = 200,
     body_text = ''<li '' @ attr ''data-season_id'' ''10'' @ '' ''
       @ attr ''data-episode_id'' ''3'' @ ''>E3</li>'',
     body_json = None\<rparr>"

definition fixture_episodes_page :: response where
  "fixture_episodes_page = \<lparr>status = 200,
     body_text = ''<li '' @ attr ''data-season_id'' ''2'' @ '' '' @ attr ''data-episode_id'' ''5''
       @ ''><li '' @ attr ''data-season_id'' ''1'' @ '' '' @ attr ''data-episode_id'' ''7''
       @ ''><li '' @ attr ''data-season_id'' ''2'' @ '' '' @ attr ''data-episode_id'' ''3''
       @ ''><li '' @ attr ''data-season_id'' ''2'' @ '' '' @ attr ''data-episode_id'' ''5'' @ ''>'',
     body_json = None\<rparr>"

text \<open>
  A series page with two episodes of one season whose ids, 9007199254740993 and
  9007199254740992, are the same double.
\<close>

definition fixture_long_ids_page :: response where
  "fixture_long_ids_page = \<lparr>status = 200,
     body_text = ''<li '' @ attr ''data-season_id'' ''1'' @ '' ''
       @ attr ''data-episode_id'' ''9007199254740993''
       @ ''><li '' @ attr ''data-season_id'' ''1'' @ '' ''
       @ attr ''data-episode_id'' ''9007199254740992'' @ ''>'',
     body_json = None\<rparr>"

definition fixture_search_page :: response where
  "fixture_search_page = \<lparr>status = 200,
     body_text = ''<div '' @ attr ''class'' ''b-content__inline_item'' @ '' '' @ attr ''data-id'' ''1''
       @ '' '' @ attr ''data-url'' ''https://hdrezka.me/cartoons/x-sezon.html'' @ ''><a><img ''
       @ attr ''src'' ''p.jpg'' @ ''/></a><div '' @ attr ''class'' ''b-content__inline_item-link''
       @ ''> <a href=x>Title</a> <div>USA, 2019 - 2021</div></div></div>'',
     body_json = None\<rparr>"

text \<open>
  A network that answers every page request with the film page and a stream request
  according to the translator it names, and a request to \<open>/api/stream\<close> for that
  page.
\<close>

definition fixture_net :: "outbound \<Rightarrow> fetch_result" where
  "fixture_net out =
     (case out of
        GetPage p \<Rightarrow> Resolved fixture_movie_page
      | GetSearch q \<Rightarrow> Rejected
      | PostStream form \<Rightarrow>
          if map_of form ''translator_id'' = Some (JStr ''56'')
          then stream_envelope token_unsorted else fixture_two_qualities)"

definition fixture_stream_request :: "(string \<times> string) list \<Rightarrow> worker_request" where
  "fixture_stream_request extra =
     \<lparr>req_method = ''GET'', req_path = ''/api/stream'',
      req_params = (''url'', ''https://hdrezka.me/films/x.html'') # extra\<rparr>"

section \<open>Evaluation on concrete inputs\<close>

text \<open>The defining equations that the simplifier unfolds to run the model on a fixture.\<close>

lemmas js_eval =
  startsWith_def endsWith_def split_js_def js_space_def line_terminator_def trim_def
  is_digit_def digit_val_def parseInt_def ascii_whitespace_def b64_index_def
  strip_padding_def atob_def trash_head1_def trash_tail1_def trash_head2_def
  trash_tail2_def trash4_def trash_match_def clearTrash_def decimal_value_def
  is_array_index_def own_properties_def Object_keys_def set_property_def
  match_quality_def first_m3u8_def parse_part_def parse_decoded_def parseVideoUrls_def
  ok_def parseSubtitles_def quality_num_def best_stream_def video_urls_of_def
  getStream_response_def Let_def char_of_eq_iff take_bit_eq_mod show_nat.simps excess_bits.simps nearest_double_def to_number_def
  compare_qualities_def sort_js_def

lemmas page_eval =
  lit_def greedy_capture1_def attr_at_def not_gt_def not_lt_def not_dq_def translator_at_def
  episode_at_def add_episode_def getContentInfo_response_def item_info_def item_title_def
  item_poster_def item_at_def content_type_def search_entry_def searchContent_response_def
  attr_def

section \<open>Numbers and the sort\<close>

lemma excess_bits_le: "0 < n \<Longrightarrow> 2 ^ excess_bits n \<le> n"
proof (induction n rule: excess_bits.induct)
  case (1 n)
  show ?case
  proof (cases "n < 2 ^ 53")
    case True
    with 1 show ?thesis by (simp add: excess_bits.simps)
  next
    case False
    have "(2::nat) \<le> 2 ^ 53" by simp
    with False have "2 \<le> n" by linarith
    then have "0 < n div 2" by simp
    with 1 False have "2 ^ excess_bits (n div 2) \<le> n div 2" by blast
    then have "2 * 2 ^ excess_bits (n div 2) \<le> 2 * (n div 2)" by simp
    also have "\<dots> \<le> n" by simp
    finally show ?thesis using False by (simp add: excess_bits.simps [of n])
  qed
qed

lemma nearest_double_pos: "0 < n \<Longrightarrow> 0 < nearest_double n"
proof -
  assume "0 < n"
  then have "2 ^ excess_bits n \<le> n" by (rule excess_bits_le)
  then have "0 < n div 2 ^ excess_bits n" by (simp add: div_greater_zero_iff)
  then show ?thesis by (simp add: nearest_double_def Let_def)
qed

lemma positive_to_number: "positive (to_number i) \<longleftrightarrow> 0 < i"
proof (cases "\<bar>i\<bar> < 2 ^ 53")
  case True
  then show ?thesis by (simp add: to_number_def)
next
  case False
  then have "i \<noteq> 0" by auto
  then have "0 < nat \<bar>i\<bar>" by simp
  then have n: "0 < int (nearest_double (nat \<bar>i\<bar>))"
    using nearest_double_pos [of "nat \<bar>i\<bar>"] by simp
  show ?thesis
  proof (cases "i < 0")
    case True
    with n False show ?thesis by (simp add: to_number_def Let_def)
  next
    case f: False
    with \<open>i \<noteq> 0\<close> have "0 < i" by simp
    with n False show ?thesis by (simp add: to_number_def Let_def)
  qed
qed

lemma positive_minus_js:
  "x \<noteq> NaN \<Longrightarrow> y \<noteq> NaN \<Longrightarrow> positive (minus_js x y) \<longleftrightarrow> \<not> num_le x y"
  by (cases x; cases y) (auto simp: positive_to_number)

lemma num_le_rank:
  "x \<noteq> NaN \<Longrightarrow> y \<noteq> NaN \<Longrightarrow> num_le x y \<longleftrightarrow> number_rank x \<le> number_rank y"
  by (cases x; cases y) simp_all

lemma to_number_not_NaN: "to_number i \<noteq> NaN"
  by (simp add: to_number_def Let_def)

lemma digit_val_digit: "is_digit c \<Longrightarrow> digit_val 10 c = Some (of_char c - 48)"
  by (auto simp: is_digit_def digit_val_def Let_def)

lemma digit_val_no_digit: "\<not> is_digit c \<Longrightarrow> digit_val 10 c = None"
  by (auto simp: is_digit_def digit_val_def Let_def)

lemma digits_prefix_run:
  "list_all is_digit ds \<Longrightarrow> rest = [] \<or> \<not> is_digit (hd rest) \<Longrightarrow>
     digits_prefix 10 (ds @ rest) = map (\<lambda>c. of_char c - 48) ds"
proof (induction ds)
  case Nil
  then show ?case by (cases rest) (auto simp: digit_val_no_digit)
next
  case (Cons d ds)
  then show ?case by (simp add: digit_val_digit)
qed

lemma digit_not_space: "is_digit c \<Longrightarrow> \<not> js_space c \<and> c \<noteq> CHR ''-'' \<and> c \<noteq> CHR ''+''
    \<and> c \<noteq> CHR ''x'' \<and> c \<noteq> CHR ''X''"
  by (auto simp: is_digit_def js_space_def)

lemma parseInt_digits:
  assumes "numeric ds" "plain_tail rest"
  shows "parseInt (ds @ rest) = to_number (int (decimal_value ds))"
proof -
  from assms(1) obtain d ds' where ds: "ds = d # ds'" and d: "is_digit d"
    and all: "list_all is_digit ds"
    by (cases ds) (auto simp: numeric_def)
  have sp: "dropWhile js_space (ds @ rest) = ds @ rest"
    using d digit_not_space [of d] by (simp add: ds)
  have nohex: "\<not> startsWith (ds @ rest) ''0x'' \<and> \<not> startsWith (ds @ rest) ''0X''"
  proof (cases ds')
    case Nil
    with assms(2) show ?thesis
      by (cases rest) (auto simp: ds plain_tail_def startsWith_def)
  next
    case (Cons e es)
    with all ds have "is_digit e" by simp
    with digit_not_space [of e] show ?thesis by (auto simp: ds Cons startsWith_def)
  qed
  have run: "digits_prefix 10 (ds @ rest) = map (\<lambda>c. of_char c - 48) ds"
    using all assms(2) by (intro digits_prefix_run) (auto simp: plain_tail_def)
  have val: "foldl (\<lambda>a d. a * 10 + d) 0 (map (\<lambda>c. of_char c - 48) ds) = decimal_value ds"
    by (simp add: decimal_value_def foldl_map)
  have hd: "hd (ds @ rest) = d" "ds @ rest \<noteq> []" by (simp_all add: ds)
  show ?thesis
    using d digit_not_space [of d]
    by (simp add: parseInt_def sp nohex run val hd Let_def) (simp add: ds)
qed

lemma quality_num_digits:
  "numeric ds \<Longrightarrow> plain_tail rest \<Longrightarrow>
     quality_num (ds @ rest) = to_number (int (decimal_value ds))"
  by (auto simp: quality_num_def Let_def parseInt_digits to_number_def)

lemma quality_num_exact:
  "numeric ds \<Longrightarrow> plain_tail rest \<Longrightarrow> decimal_value ds < 2 ^ 53 \<Longrightarrow>
     quality_num (ds @ rest) = Finite (int (decimal_value ds))"
proof -
  assume a: "numeric ds" "plain_tail rest" and b: "decimal_value ds < 2 ^ 53"
  from b have "int (decimal_value ds) < 2 ^ 53"
    by (metis of_nat_less_iff of_nat_numeral of_nat_power)
  then have "to_number (int (decimal_value ds)) = Finite (int (decimal_value ds))"
    by (simp add: to_number_def)
  with a show ?thesis by (simp add: quality_num_digits)
qed

lemma quality_num_non_numeric: "non_numeric l \<Longrightarrow> quality_num l = Finite 0"
proof (cases l)
  case Nil
  then show ?thesis by (simp add: quality_num_def parseInt_def startsWith_def Let_def)
next
  case (Cons c cs)
  assume "non_numeric l"
  with Cons have c: "\<not> is_digit c" "\<not> js_space c" "c \<noteq> CHR ''-''" "c \<noteq> CHR ''+''"
    by (simp_all add: non_numeric_def)
  then have "c \<noteq> CHR ''0''" by (auto simp: is_digit_def)
  with c have "parseInt l = NaN"
    by (simp add: Cons parseInt_def startsWith_def Let_def digit_val_no_digit)
  then show ?thesis by (simp add: quality_num_def)
qed

lemma quality_num_not_NaN: "quality_num a \<noteq> NaN"
  by (simp add: quality_num_def Let_def)

lemma num_le_quality: "num_le (quality_num a) (quality_num b) \<longleftrightarrow> quality_rank a \<le> quality_rank b"
  by (simp add: quality_rank_def num_le_rank quality_num_not_NaN)

lemma number_rank_inj: "x \<noteq> NaN \<Longrightarrow> y \<noteq> NaN \<Longrightarrow> number_rank x = number_rank y \<longleftrightarrow> x = y"
  by (cases x; cases y) simp_all

lemma quality_rank_eq: "quality_rank a = quality_rank b \<longleftrightarrow> quality_num a = quality_num b"
  by (simp add: quality_rank_def number_rank_inj quality_num_not_NaN)

lemma insert_sorted_insort:
  "insert_sorted compare_qualities x ys = insort_key quality_rank x ys"
  by (induction ys)
    (simp_all add: compare_qualities_def positive_minus_js quality_num_not_NaN num_le_quality)

lemma sort_js_sort_key: "sort_js compare_qualities xs = sort_key quality_rank xs"
  by (induction xs) (simp_all add: sort_js_def insert_sorted_insort)

lemma sorted_le_last:
  fixes f :: "'a \<Rightarrow> 'b::linorder"
  shows "sorted (map f ys) \<Longrightarrow> y \<in> set ys \<Longrightarrow> f y \<le> f (last ys)"
  by (cases ys rule: rev_cases) (auto simp: sorted_append)

lemma sorted_last_Max:
  fixes f :: "'a \<Rightarrow> 'b::linorder"
  assumes "xs \<noteq> []"
  shows "f (last (sort_key f xs)) = Max (f ` set xs)"
proof -
  let ?ys = "sort_key f xs"
  from assms have ne: "?ys \<noteq> []" by (metis length_0_conv length_sort)
  have s: "sorted (map f ?ys)" by (rule sorted_sort_key)
  have "\<And>y. y \<in> set xs \<Longrightarrow> f y \<le> f (last ?ys)"
    using sorted_le_last [OF s] by simp
  moreover have "last ?ys \<in> set xs" using ne last_in_set [of ?ys] by simp
  ultimately show ?thesis
    by (intro Max_eqI [symmetric]) auto
qed

lemma last_filter_sorted:
  fixes f :: "'a \<Rightarrow> 'b::linorder"
  assumes "sorted (map f ys)" "ys \<noteq> []"
  shows "last (filter (\<lambda>y. f y = f (last ys)) ys) = last ys"
  using assms
proof (induction ys rule: rev_induct)
  case Nil then show ?case by simp
next
  case (snoc y ys) then show ?case by simp
qed

lemma last_sort_key_stable:
  fixes f :: "'a \<Rightarrow> 'b::linorder"
  assumes "xs \<noteq> []"
  shows "last (sort_key f xs) = last (filter (\<lambda>x. f x = Max (f ` set xs)) xs)"
proof -
  let ?ys = "sort_key f xs"
  let ?m = "Max (f ` set xs)"
  from assms have ne: "?ys \<noteq> []" by (metis length_0_conv length_sort)
  have m: "f (last ?ys) = ?m" by (rule sorted_last_Max [OF assms])
  have "last ?ys = last (filter (\<lambda>y. f y = f (last ?ys)) ?ys)"
    by (rule last_filter_sorted [symmetric]) (simp_all add: ne)
  also have "\<dots> = last (filter (\<lambda>y. f y = ?m) ?ys)" by (simp only: m)
  also have "filter (\<lambda>y. f y = ?m) ?ys = filter (\<lambda>y. f y = ?m) xs"
    by (rule sort_key_stable)
  finally show ?thesis .
qed

lemma set_own_properties: "set (own_properties obj) = set obj"
  by (auto simp: own_properties_def)

lemma set_Object_keys: "set (Object_keys obj) = fst ` set obj"
  by (simp add: Object_keys_def set_own_properties)

lemma length_own_properties: "length (own_properties obj) = length obj"
  by (simp add: own_properties_def sum_length_filter_compl)

lemma best_stream_fields:
  "qualities (best_stream v s) = sort_key quality_rank (Object_keys v)"
  "all_urls (best_stream v s) = v"
  by (simp_all add: best_stream_def Let_def sort_js_sort_key)

lemma best_stream_sorted:
  "sorted_wrt (\<lambda>a b. num_le (quality_num a) (quality_num b)) (qualities (best_stream v s))"
  using sorted_sort_key [of quality_rank "Object_keys v"]
  by (simp add: best_stream_fields sorted_map num_le_quality)

lemma best_stream_top:
  assumes "qualities (best_stream v s) \<noteq> []"
  shows "top_valued v (last (qualities (best_stream v s)))"
proof -
  let ?ys = "sort_key quality_rank (Object_keys v)"
  have s: "sorted (map quality_rank ?ys)" by (rule sorted_sort_key)
  have "quality_rank j \<le> quality_rank (last ?ys)" if "j \<in> fst ` set v" for j
    using sorted_le_last [OF s, of j] that by (simp add: set_Object_keys)
  then show ?thesis
    by (simp add: top_valued_def best_stream_fields num_le_quality)
qed

lemma top_valued_Max:
  assumes "k \<in> fst ` set v"
  shows "top_valued v k \<longleftrightarrow> quality_rank k = Max (quality_rank ` fst ` set v)"
proof -
  have t: "top_valued v k \<longleftrightarrow> (\<forall>j \<in> fst ` set v. quality_rank j \<le> quality_rank k)"
    by (simp add: top_valued_def num_le_quality)
  have f: "finite (quality_rank ` fst ` set v)" by simp
  have m: "quality_rank k \<in> quality_rank ` fst ` set v" using assms by (rule imageI)
  show ?thesis
  proof
    assume "top_valued v k"
    with t have "\<And>y. y \<in> quality_rank ` fst ` set v \<Longrightarrow> y \<le> quality_rank k" by blast
    with f m show "quality_rank k = Max (quality_rank ` fst ` set v)"
      by (intro Max_eqI [symmetric])
  next
    assume e: "quality_rank k = Max (quality_rank ` fst ` set v)"
    have "quality_rank j \<le> Max (quality_rank ` fst ` set v)" if "j \<in> fst ` set v" for j
      using f that by (intro Max_ge imageI)
    with e t show "top_valued v k" by simp
  qed
qed

lemma best_stream_url:
  assumes "qualities (best_stream v s) \<noteq> []"
  shows "map_of (all_urls (best_stream v s)) (last (qualities (best_stream v s)))
           = Some (stream_url (best_stream v s))"
proof -
  let ?qs = "sort_js compare_qualities (Object_keys v)"
  from assms have ne: "?qs \<noteq> []" by (simp add: best_stream_def Let_def)
  then have "last ?qs \<in> set ?qs" by (rule last_in_set)
  then have "last ?qs \<in> fst ` set v" by (simp add: sort_js_sort_key set_Object_keys)
  then obtain u where u: "map_of v (last ?qs) = Some u"
    by (metis domIff dom_map_of_conv_image_fst not_Some_eq)
  with ne show ?thesis by (simp add: best_stream_def Let_def)
qed

lemma best_stream_empty:
  "qualities (best_stream v s) = [] \<Longrightarrow> stream_url (best_stream v s) = []"
  by (simp add: best_stream_def Let_def)

lemma getStream_response_best:
  "getStream_response fr = Inr r \<Longrightarrow> \<exists>v s. r = best_stream v s"
  by (auto simp: getStream_response_def
      split: fetch_result.splits if_splits option.splits sum.splits)

section \<open>Objects and the parser\<close>

lemma parse_part_binding:
  "parse_part urls part =
     (case part_binding part of None \<Rightarrow> urls | Some (q, u) \<Rightarrow> set_property urls q u)"
  by (simp add: parse_part_def part_binding_def split: option.splits)

lemma map_of_obj_update: "map_of (obj_update k v ps) = (map_of ps)(k \<mapsto> v)"
  by (induction ps) auto

lemma map_of_set_property:
  "q \<noteq> ''__proto__'' \<Longrightarrow>
     map_of (set_property urls k v) q = (if q = k then Some v else map_of urls q)"
  by (simp add: set_property_def map_of_obj_update)

lemma map_of_set_property_proto:
  "map_of (set_property urls k v) ''__proto__'' = map_of urls ''__proto__''"
  by (simp add: set_property_def map_of_obj_update)

lemma map_of_parse_parts:
  "q \<noteq> ''__proto__'' \<Longrightarrow>
     map_of (foldl parse_part acc parts) q =
       (case map_of (rev (List.map_filter part_binding parts)) q of
          Some u \<Rightarrow> Some u
        | None \<Rightarrow> map_of acc q)"
proof (induction parts arbitrary: acc)
  case Nil
  then show ?case by simp
next
  case (Cons p ps)
  show ?case
  proof (cases "part_binding p")
    case None
    with Cons show ?thesis by (simp add: parse_part_binding)
  next
    case (Some b)
    obtain k v where b: "b = (k, v)" by (cases b)
    with Some Cons show ?thesis
      by (auto simp: parse_part_binding map_of_set_property
          map_add_def split: option.splits)
  qed
qed

lemma map_of_parse_parts_proto:
  "map_of (foldl parse_part acc parts) ''__proto__'' = map_of acc ''__proto__''"
  by (induction parts arbitrary: acc)
    (auto simp: parse_part_binding map_of_set_property_proto split: option.splits)

lemma match_quality_iff:
  "match_quality part = Some (q, rest) \<longleftrightarrow>
     part = ''['' @ q @ '']'' @ rest \<and> q \<noteq> [] \<and> CHR '']'' \<notin> set q \<and> rest \<noteq> []
     \<and> list_all (\<lambda>c. \<not> line_terminator c) rest"
proof
  assume m: "match_quality part = Some (q, rest)"
  then obtain r where part: "part = CHR ''['' # r"
    by (cases part) (auto simp: match_quality_def split: if_splits)
  from m part have q: "q = takeWhile (\<lambda>x. x \<noteq> CHR '']'') r" and qne: "q \<noteq> []"
    and d: "dropWhile (\<lambda>x. x \<noteq> CHR '']'') r = CHR '']'' # rest"
    and rest: "rest \<noteq> []" "list_all (\<lambda>c. \<not> line_terminator c) rest"
    by (auto simp: match_quality_def Let_def dropWhile_eq_Cons_conv
        split: if_splits list.splits)
  have "r = q @ CHR '']'' # rest"
    using takeWhile_dropWhile_id [of "\<lambda>x. x \<noteq> CHR '']''" r] by (simp add: q d)
  moreover have "CHR '']'' \<notin> set q"
    unfolding q by (auto dest: set_takeWhileD)
  ultimately show "part = ''['' @ q @ '']'' @ rest \<and> q \<noteq> [] \<and> CHR '']'' \<notin> set q \<and> rest \<noteq> []
     \<and> list_all (\<lambda>c. \<not> line_terminator c) rest"
    using part qne rest by simp
next
  assume a: "part = ''['' @ q @ '']'' @ rest \<and> q \<noteq> [] \<and> CHR '']'' \<notin> set q \<and> rest \<noteq> []
     \<and> list_all (\<lambda>c. \<not> line_terminator c) rest"
  then have t: "takeWhile (\<lambda>x. x \<noteq> CHR '']'') (q @ CHR '']'' # rest) = q"
    by (auto simp: takeWhile_tail intro!: takeWhile_eq_all_conv [THEN iffD2])
  from a have d: "dropWhile (\<lambda>x. x \<noteq> CHR '']'') (q @ CHR '']'' # rest) = CHR '']'' # rest"
    by (auto simp: dropWhile_append3 intro!: dropWhile_eq_Nil_conv [THEN iffD2])
  from a t d show "match_quality part = Some (q, rest)"
    by (simp add: match_quality_def)
qed


lemma find_Some_split:
  "find P xs = Some x \<longleftrightarrow> (\<exists>pre post. xs = pre @ x # post \<and> P x \<and> list_all (\<lambda>a. \<not> P a) pre)"
proof (induction xs)
  case Nil
  then show ?case by simp
next
  case (Cons a xs)
  show ?case
  proof (cases "P a")
    case True
    have "(\<exists>pre post. a # xs = pre @ x # post \<and> P x \<and> list_all (\<lambda>a. \<not> P a) pre) \<longleftrightarrow> a = x"
    proof
      assume "\<exists>pre post. a # xs = pre @ x # post \<and> P x \<and> list_all (\<lambda>a. \<not> P a) pre"
      then obtain pre post where e: "a # xs = pre @ x # post" "list_all (\<lambda>a. \<not> P a) pre"
        by blast
      with True show "a = x" by (cases pre) auto
    next
      assume "a = x"
      with True have "a # xs = [] @ x # xs \<and> P x \<and> list_all (\<lambda>a. \<not> P a) []" by simp
      then show "\<exists>pre post. a # xs = pre @ x # post \<and> P x \<and> list_all (\<lambda>a. \<not> P a) pre"
        by blast
    qed
    with True show ?thesis by simp
  next
    case False
    have "(\<exists>pre post. a # xs = pre @ x # post \<and> P x \<and> list_all (\<lambda>a. \<not> P a) pre)
          \<longleftrightarrow> (\<exists>pre post. xs = pre @ x # post \<and> P x \<and> list_all (\<lambda>a. \<not> P a) pre)"
    proof
      assume "\<exists>pre post. a # xs = pre @ x # post \<and> P x \<and> list_all (\<lambda>a. \<not> P a) pre"
      then obtain pre post where e: "a # xs = pre @ x # post" "P x" "list_all (\<lambda>a. \<not> P a) pre"
        by blast
      with False obtain pre' where "pre = a # pre'" by (cases pre) auto
      with e have "xs = pre' @ x # post \<and> P x \<and> list_all (\<lambda>a. \<not> P a) pre'" by simp
      then show "\<exists>pre post. xs = pre @ x # post \<and> P x \<and> list_all (\<lambda>a. \<not> P a) pre" by blast
    next
      assume "\<exists>pre post. xs = pre @ x # post \<and> P x \<and> list_all (\<lambda>a. \<not> P a) pre"
      then obtain pre post where e: "xs = pre @ x # post" "P x" "list_all (\<lambda>a. \<not> P a) pre"
        by blast
      with False have "a # xs = (a # pre) @ x # post \<and> P x \<and> list_all (\<lambda>a. \<not> P a) (a # pre)"
        by simp
      then show "\<exists>pre post. a # xs = pre @ x # post \<and> P x \<and> list_all (\<lambda>a. \<not> P a) pre"
        by blast
    qed
    with False Cons show ?thesis by simp
  qed
qed

lemma part_binding_iff:
  "part_binding part = Some (q, u) \<longleftrightarrow>
     (\<exists>rest pre post.
        part = ''['' @ q @ '']'' @ rest \<and> q \<noteq> [] \<and> CHR '']'' \<notin> set q \<and> rest \<noteq> []
        \<and> list_all (\<lambda>c. \<not> line_terminator c) rest
        \<and> split_js rest '' or '' = pre @ u # post \<and> endsWith u ''.m3u8''
        \<and> list_all (\<lambda>a. \<not> endsWith a ''.m3u8'') pre)"
proof -
  have "part_binding part = Some (q, u) \<longleftrightarrow>
     (\<exists>rest. match_quality part = Some (q, rest)
        \<and> first_m3u8 (split_js rest '' or '') = Some u)"
    by (auto simp: part_binding_def split: option.splits)
  then show ?thesis
    unfolding match_quality_iff first_m3u8_def find_Some_split by blast
qed

lemma keys_obj_update: "set (map fst (obj_update k v ps)) = insert k (set (map fst ps))"
  by (induction ps) auto

lemma distinct_obj_update:
  "distinct (map fst ps) \<Longrightarrow> distinct (map fst (obj_update k v ps))"
proof (induction ps)
  case Nil
  then show ?case by simp
next
  case (Cons p ps)
  then show ?case using keys_obj_update [of k v ps] by (auto simp del: set_map)
qed

lemma dedup_into_Cons: "dedup_into l (x # xs) = dedup_into (dedup_into l [x]) xs"
  by (simp add: dedup_into_def)

lemma remdups_snoc: "remdups (ys @ [x]) = remdups (filter (\<lambda>y. y \<noteq> x) ys) @ [x]"
  by (induction ys) auto

lemma dedup_into_filter:
  "dedup_into l xs = l @ rev (remdups (rev (filter (\<lambda>x. x \<notin> set l) xs)))"
proof (induction xs arbitrary: l)
  case Nil
  then show ?case by (simp add: dedup_into_def)
next
  case (Cons x xs)
  show ?case
  proof (cases "x \<in> set l")
    case True
    then have "dedup_into l (x # xs) = dedup_into l xs" by (simp add: dedup_into_def)
    with Cons [of l] True show ?thesis by simp
  next
    case False
    then have "dedup_into l (x # xs) = dedup_into (l @ [x]) xs" by (simp add: dedup_into_def)
    also have "\<dots> = (l @ [x]) @ rev (remdups (rev (filter (\<lambda>y. y \<notin> set (l @ [x])) xs)))"
      by (rule Cons)
    also have "filter (\<lambda>y. y \<notin> set (l @ [x])) xs
          = filter (\<lambda>y. y \<noteq> x) (filter (\<lambda>y. y \<notin> set l) xs)"
      by (auto intro: filter_cong)
    also have "rev (remdups (rev (filter (\<lambda>y. y \<noteq> x) (filter (\<lambda>y. y \<notin> set l) xs))))
          = rev (remdups (filter (\<lambda>y. y \<noteq> x) (rev (filter (\<lambda>y. y \<notin> set l) xs))))"
      by (simp add: rev_filter)
    finally show ?thesis using False
      by (simp add: remdups_snoc)
  qed
qed

lemma dedup_into_Nil: "dedup_into [] xs = rev (remdups (rev xs))"
  by (simp add: dedup_into_filter)

lemma keys_obj_update_list:
  "map fst (obj_update k v ps) = (if k \<in> fst ` set ps then map fst ps else map fst ps @ [k])"
  by (induction ps) auto

lemma keys_set_property:
  "map fst (set_property urls k v) =
     dedup_into (map fst urls) (filter (\<lambda>q. q \<noteq> ''__proto__'') [k])"
  by (simp add: set_property_def keys_obj_update_list dedup_into_def)

lemma dedup_into_append: "dedup_into l (xs @ ys) = dedup_into (dedup_into l xs) ys"
  by (simp add: dedup_into_def)

lemma keys_parse_parts:
  "map fst (foldl parse_part acc parts) =
     dedup_into (map fst acc)
       (filter (\<lambda>q. q \<noteq> ''__proto__'') (map fst (List.map_filter part_binding parts)))"
proof (induction parts arbitrary: acc)
  case Nil
  then show ?case by (simp add: List.map_filter_simps dedup_into_def)
next
  case (Cons p ps)
  show ?case
  proof (cases "part_binding p")
    case None
    then have "parse_part acc p = acc" by (simp add: parse_part_binding)
    with Cons [of acc] None show ?thesis
      by (simp add: List.map_filter_simps)
  next
    case (Some b)
    obtain k v where b: "b = (k, v)" by (cases b)
    have "map fst (foldl parse_part acc (p # ps)) =
        dedup_into (map fst (set_property acc k v))
          (filter (\<lambda>q. q \<noteq> ''__proto__'') (map fst (List.map_filter part_binding ps)))"
    proof -
      have "parse_part acc p = set_property acc k v"
        using Some b by (simp add: parse_part_binding)
      with Cons [of "set_property acc k v"] show ?thesis by simp
    qed
    also have "\<dots> = dedup_into (map fst acc)
          (filter (\<lambda>q. q \<noteq> ''__proto__'') [k]
           @ filter (\<lambda>q. q \<noteq> ''__proto__'') (map fst (List.map_filter part_binding ps)))"
      by (simp only: keys_set_property dedup_into_append)
    finally show ?thesis using Some b by (simp add: List.map_filter_simps)
  qed
qed

lemma keys_parse_decoded: "map fst (parse_decoded d) = dedup_into [] (payload_labels d)"
  using keys_parse_parts [of "[]" "split_js d '',''"]
  by (simp add: parse_decoded_def payload_labels_def)

lemma Object_keys_split:
  "Object_keys obj = sort_key decimal_value (filter is_array_index (map fst obj))
                     @ filter (\<lambda>k. \<not> is_array_index k) (map fst obj)"
proof -
  have "map fst (sort_key (\<lambda>p. decimal_value (fst p)) xs) = sort_key decimal_value (map fst xs)"
    for xs :: "(string \<times> 'a) list"
  proof (induction xs)
    case Nil then show ?case by simp
  next
    case (Cons x xs)
    have "map fst (insort_key (\<lambda>p. decimal_value (fst p)) x ys)
          = insort_key decimal_value (fst x) (map fst ys)" for ys :: "(string \<times> 'a) list"
      by (induction ys) auto
    with Cons show ?case by simp
  qed
  then show ?thesis
    by (simp add: Object_keys_def own_properties_def filter_map comp_def)
qed

section \<open>The stream descriptor\<close>

lemma unsorted_result:
  "getStream_response (stream_envelope token_unsorted) =
     Inr \<lparr>stream_url = ''a.m3u8'', qualities = [''360p'', ''720p''], subtitles = [],
       all_urls = [(''720p'', ''a.m3u8''), (''360p'', ''b.m3u8'')]\<rparr>"
  by (simp add: stream_envelope_def token_unsorted_def js_eval)

text \<open>
  C1. In every result that \<open>getStream\<close> returns with \<open>qualities\<close> not empty,
  \<open>stream_url\<close> is the url that \<open>all_urls\<close> holds for the last entry of \<open>qualities\<close>,
  and that entry is a label of the highest quality: no label of \<open>all_urls\<close> has a
  greater value, the value of a label being the number \<open>parseInt(label) || 0\<close>. When
  \<open>qualities\<close> is empty, \<open>stream_url\<close> is the empty string. The value of a label
  that is a run of digits, read in decimal and below \<open>2^53\<close>, followed by nothing or by
  a character that is no digit and no \<open>x\<close>, is the number of the digits; the value of
  a label that begins with no digit, sign or white space is zero.
\<close>

theorem getStream_stream_url_invariant:
  "getStream_response fr = Inr r \<Longrightarrow>
     (qualities r \<noteq> [] \<longrightarrow>
        map_of (all_urls r) (last (qualities r)) = Some (stream_url r)
        \<and> last (qualities r) \<in> fst ` set (all_urls r)
        \<and> (\<forall>k \<in> fst ` set (all_urls r).
              num_le (quality_num k) (quality_num (last (qualities r)))))
     \<and> (qualities r = [] \<longrightarrow> stream_url r = [])
     \<and> (\<forall>ds rest. numeric ds \<and> plain_tail rest \<and> decimal_value ds < 2 ^ 53 \<longrightarrow>
           quality_num (ds @ rest) = Finite (int (decimal_value ds)))
     \<and> (\<forall>l. non_numeric l \<longrightarrow> quality_num l = Finite 0)"
proof -
  assume "getStream_response fr = Inr r"
  then obtain v s where r: "r = best_stream v s"
    using getStream_response_best by blast
  have 1: "map_of (all_urls r) (last (qualities r)) = Some (stream_url r)"
    if "qualities r \<noteq> []"
    using that best_stream_url [of v s] by (simp add: r)
  have 2: "last (qualities r) \<in> fst ` set (all_urls r)" if "qualities r \<noteq> []"
    using last_in_set [OF that] by (simp add: r best_stream_fields set_Object_keys)
  have 3: "\<forall>k \<in> fst ` set (all_urls r).
              num_le (quality_num k) (quality_num (last (qualities r)))"
    if "qualities r \<noteq> []"
    using that best_stream_top [of v s] by (simp add: r top_valued_def best_stream_fields)
  have 4: "stream_url r = []" if "qualities r = []"
    using that best_stream_empty [of v s] by (simp add: r)
  have 5: "\<forall>ds rest. numeric ds \<and> plain_tail rest \<and> decimal_value ds < 2 ^ 53 \<longrightarrow>
           quality_num (ds @ rest) = Finite (int (decimal_value ds))"
    using quality_num_exact by blast
  have 6: "\<forall>l. non_numeric l \<longrightarrow> quality_num l = Finite 0"
    using quality_num_non_numeric by blast
  show ?thesis
    by (intro conjI impI; (rule 5 6 | (rule 1 2 3 4, assumption)))
qed

theorem getStream_stream_url_invariant_witness:
  "getStream_response (stream_envelope token_unsorted) =
     Inr \<lparr>stream_url = ''a.m3u8'', qualities = [''360p'', ''720p''], subtitles = [],
       all_urls = [(''720p'', ''a.m3u8''), (''360p'', ''b.m3u8'')]\<rparr>
   \<and> map_of [(''720p'', ''a.m3u8''), (''360p'', ''b.m3u8'')] ''720p'' = Some ''a.m3u8''
   \<and> quality_num ''360p'' = Finite 360 \<and> quality_num ''720p'' = Finite 720
   \<and> num_le (quality_num ''360p'') (quality_num ''720p'')
   \<and> numeric ''720'' \<and> plain_tail ''p'' \<and> decimal_value ''720'' = 720
   \<and> non_numeric ''auto'' \<and> quality_num ''auto'' = Finite 0"
  using getStream_stream_url_invariant [OF unsorted_result]
  by (simp add: unsorted_result)
    (simp add: numeric_def plain_tail_def non_numeric_def js_eval)

section \<open>The mapping of the parser\<close>

text \<open>
  For every label other than \<open>__proto__\<close> the mapping holds the url of the last part,
  of the decoded string split on \<open>,\<close>, that yields the label, and nothing for a label
  that no part yields.
\<close>

lemma parse_decoded_lookup:
  "k \<noteq> ''__proto__'' \<Longrightarrow>
     map_of (parse_decoded d) k =
       map_of (rev (List.map_filter part_binding (split_js d '',''))) k"
  using map_of_parse_parts [of k "[]" "split_js d '',''"]
  by (auto simp: parse_decoded_def split: option.splits)

text \<open>
  C3. The parser runs \<open>urls[quality] = url\<close> for every part of the shape
  \<open>[quality]rest\<close> that has an alternative ending with \<open>.m3u8\<close>, so as to map the
  label to that url. For the label \<open>__proto__\<close> the assignment reaches the setter
  that \<open>{}\<close> inherits from \<open>Object.prototype\<close>, which drops a string: the part
  \<open>[__proto__]a.m3u8\<close> has the shape and the alternative \<open>a.m3u8\<close>, and the mapping
  that the parser returns for it is empty, as is the stream that \<open>getStream\<close> makes of
  it.
\<close>

theorem parseVideoUrls_proto_label:
  "clearTrash token_proto = ''[__proto__]a.m3u8''
   \<and> split_js ''[__proto__]a.m3u8'' '','' = [''[__proto__]a.m3u8'']
   \<and> match_quality ''[__proto__]a.m3u8'' = Some (''__proto__'', ''a.m3u8'')
   \<and> first_m3u8 (split_js ''a.m3u8'' '' or '') = Some ''a.m3u8''
   \<and> parseVideoUrls token_proto = []
   \<and> getStream_response (stream_envelope token_proto) =
       Inr \<lparr>stream_url = [], qualities = [], subtitles = [], all_urls = []\<rparr>"
  by (simp add: token_proto_def stream_envelope_def js_eval)

section \<open>The deobfuscator's round trip\<close>

lemma b64_index_char: "n < 64 \<Longrightarrow> b64_index (b64_char n) = Some n"
  by (auto simp: b64_index_def b64_char_def Let_def)

lemma b64_index_SomeD:
  "b64_index c = Some n \<Longrightarrow> c \<noteq> CHR ''='' \<and> \<not> ascii_whitespace c \<and> c \<noteq> CHR ''_'' \<and> c \<noteq> CHR ''#''"
  by (auto simp: b64_index_def Let_def ascii_whitespace_def split: if_splits)

lemma split_sextet:
  fixes n :: nat
  shows "((n div 262144 * 64 + n div 4096 mod 64) * 64 + n div 64 mod 64) * 64 + n mod 64 = n"
proof -
  have a: "n div 262144 = n div 4096 div 64" using div_mult2_eq [of n 4096 64] by simp
  have b: "n div 4096 = n div 64 div 64" using div_mult2_eq [of n 64 64] by simp
  have "n div 262144 * 64 + n div 4096 mod 64 = n div 4096"
    unfolding a by (rule div_mult_mod_eq)
  moreover have "n div 4096 * 64 + n div 64 mod 64 = n div 64"
    unfolding b by (rule div_mult_mod_eq)
  moreover have "n div 64 * 64 + n mod 64 = n" by (rule div_mult_mod_eq)
  ultimately show ?thesis by simp
qed

lemma div_mod_256:
  fixes a z :: nat
  assumes "z < 256"
  shows "(a * 256 + z) div 256 = a" and "(a * 256 + z) mod 256 = z"
  using assms by simp_all

lemma bytes3:
  fixes x y z :: nat
  assumes "x < 256" "y < 256" "z < 256"
  shows "((x * 256 + y) * 256 + z) div 65536 = x"
    and "((x * 256 + y) * 256 + z) div 256 mod 256 = y"
    and "((x * 256 + y) * 256 + z) mod 256 = z"
proof -
  have d: "((x * 256 + y) * 256 + z) div 256 = x * 256 + y"
    by (rule div_mod_256(1) [OF assms(3)])
  show "((x * 256 + y) * 256 + z) div 256 mod 256 = y"
    unfolding d by (rule div_mod_256(2) [OF assms(2)])
  show "((x * 256 + y) * 256 + z) mod 256 = z"
    by (rule div_mod_256(2) [OF assms(3)])
  have "((x * 256 + y) * 256 + z) div 65536 = ((x * 256 + y) * 256 + z) div 256 div 256"
    using div_mult2_eq [of "(x * 256 + y) * 256 + z" 256 256] by simp
  also have "\<dots> = x" unfolding d by (rule div_mod_256(1) [OF assms(2)])
  finally show "((x * 256 + y) * 256 + z) div 65536 = x" .
qed

lemma bytes2:
  fixes x y :: nat
  assumes "x < 256" "y < 256"
  shows "(((x * 256 + y) * 4 div 4096 * 64 + (x * 256 + y) * 4 div 64 mod 64) * 64
           + (x * 256 + y) * 4 mod 64) div 4 = x * 256 + y"
    and "(x * 256 + y) div 256 = x" and "(x * 256 + y) mod 256 = y"
proof -
  let ?n = "(x * 256 + y) * 4"
  have b: "?n div 4096 = ?n div 64 div 64" using div_mult2_eq [of ?n 64 64] by simp
  have "?n div 4096 * 64 + ?n div 64 mod 64 = ?n div 64"
    unfolding b by (rule div_mult_mod_eq)
  moreover have "?n div 64 * 64 + ?n mod 64 = ?n" by (rule div_mult_mod_eq)
  ultimately show "((?n div 4096 * 64 + ?n div 64 mod 64) * 64 + ?n mod 64) div 4 = x * 256 + y"
    by simp
  show "(x * 256 + y) div 256 = x" "(x * 256 + y) mod 256 = y" using assms by simp_all
qed

lemma bytes1:
  fixes x :: nat
  shows "(x * 16 div 64 * 64 + x * 16 mod 64) div 16 = x"
proof -
  have "x * 16 div 64 * 64 + x * 16 mod 64 = x * 16" by (rule div_mult_mod_eq)
  then show ?thesis by simp
qed

lemma sextet_bounds:
  fixes x y z :: nat
  shows "x < 256 \<Longrightarrow> x * 16 div 64 < 64"
    and "x < 256 \<Longrightarrow> y < 256 \<Longrightarrow> (x * 256 + y) * 4 div 4096 < 64"
    and "x < 256 \<Longrightarrow> y < 256 \<Longrightarrow> z < 256 \<Longrightarrow> ((x * 256 + y) * 256 + z) div 262144 < 64"
  by (simp_all add: less_mult_imp_div_less)

lemma sextets_lt: "list_all (\<lambda>n. n < 64) (sextets s)"
proof (induction s rule: sextets.induct)
  case 1 then show ?case by simp
next
  case (2 x)
  show ?case using sextet_bounds(1) [of "of_char x"] by (simp add: Let_def)
next
  case (3 x y)
  show ?case using sextet_bounds(2) [of "of_char x" "of_char y"] by (simp add: Let_def)
next
  case (4 x y z r)
  from 4 [OF refl] show ?case
    using sextet_bounds(3) [of "of_char x" "of_char y" "of_char z"] by (simp add: Let_def)
qed

lemma char_of_nat_of_char: "char_of (of_char c :: nat) = c"
  by (rule char_of_char)

lemma char_of_eq_of_char: "(n::nat) mod 256 = of_char c \<Longrightarrow> char_of n = c"
  by (simp add: char_of_eq_iff take_bit_eq_mod)

lemma sextets_to_bytes_sextets: "sextets_to_bytes (sextets s) = s"
proof (induction s rule: sextets.induct)
  case 1 then show ?case by simp
next
  case (2 x)
  show ?case using bytes1 [of "of_char x"] by (simp add: Let_def)
next
  case (3 x y)
  let ?m = "of_char x * 256 + of_char y :: nat"
  have "char_of (?m div 256) = x"
    using bytes2(2) [of "of_char x" "of_char y"] by simp
  moreover have "char_of ?m = y"
    by (rule char_of_eq_of_char) (use bytes2(3) [of "of_char x" "of_char y"] in simp)
  ultimately show ?case using bytes2(1) [of "of_char x" "of_char y"]
    by (simp add: Let_def del: mult_Suc_right)
next
  case (4 x y z r)
  let ?n = "(of_char x * 256 + of_char y) * 256 + of_char z :: nat"
  have "char_of (?n div 65536) = x"
    using bytes3(1) [of "of_char x" "of_char y" "of_char z"] by simp
  moreover have "char_of (?n div 256) = y"
    by (rule char_of_eq_of_char)
      (use bytes3(2) [of "of_char x" "of_char y" "of_char z"] in simp)
  moreover have "char_of ?n = z"
    by (rule char_of_eq_of_char)
      (use bytes3(3) [of "of_char x" "of_char y" "of_char z"] in simp)
  ultimately show ?case
    using 4 [OF refl] split_sextet [of ?n] by (simp add: Let_def)
qed

lemma those_b64_index: "list_all (\<lambda>n. n < 64) ns \<Longrightarrow> those (map b64_index (map b64_char ns)) = Some ns"
  by (induction ns) (simp_all add: b64_index_char)

lemma encode_shape:
  "(padding s = [] \<and> (\<exists>k. length (sextets s) = 4 * k))
   \<or> (padding s = ''=='' \<and> (\<exists>k. length (sextets s) = 4 * k + 2))
   \<or> (padding s = ''='' \<and> (\<exists>k. length (sextets s) = 4 * k + 3))"
proof (induction s rule: sextets.induct)
  case 1 then show ?case by simp
next
  case (2 x)
  have "length (sextets [x]) = 4 * 0 + 2" by (simp add: Let_def)
  then have "\<exists>k. length (sextets [x]) = 4 * k + 2" by (rule exI)
  then show ?case by simp
next
  case (3 x y)
  have "length (sextets [x, y]) = 4 * 0 + 3" by (simp add: Let_def)
  then have "\<exists>k. length (sextets [x, y]) = 4 * k + 3" by (rule exI)
  then show ?case by simp
next
  case (4 x y z r)
  have l: "length (sextets (x # y # z # r)) = length (sextets r) + 4" by (simp add: Let_def)
  have step: "\<exists>k'. j + 4 = 4 * k' + d" if "j = 4 * k + d" for j k d :: nat
  proof
    show "j + 4 = 4 * Suc k + d" using that by simp
  qed
  from 4 [OF refl] show ?case
  proof (elim disjE conjE exE)
    fix k assume "padding r = []" "length (sextets r) = 4 * k"
    with step [of "length (sextets r)" k 0] show ?thesis unfolding l by simp
  next
    fix k assume "padding r = ''==''" "length (sextets r) = 4 * k + 2"
    with step [of "length (sextets r)" k 2] show ?thesis unfolding l by simp
  next
    fix k assume "padding r = ''=''" "length (sextets r) = 4 * k + 3"
    with step [of "length (sextets r)" k 3] show ?thesis unfolding l by simp
  qed
qed

lemma b64_char_plain:
  "n < 64 \<Longrightarrow> b64_char n \<noteq> CHR ''='' \<and> \<not> ascii_whitespace (b64_char n)
     \<and> b64_char n \<noteq> CHR ''_'' \<and> b64_char n \<noteq> CHR ''#''"
  using b64_index_char [of n] b64_index_SomeD by blast

lemma endsWith_snoc: "endsWith (xs @ [c]) (ys @ [d]) \<longleftrightarrow> c = d \<and> endsWith xs ys"
  by (auto simp: endsWith_def)

lemma endsWith_Nil: "endsWith xs []"
  by (simp add: endsWith_def)

lemma endsWith_lastD: "endsWith xs (ys @ [d]) \<Longrightarrow> xs \<noteq> [] \<and> last xs = d"
  by (cases xs rule: rev_cases) (auto simp: endsWith_snoc, simp add: endsWith_def)

lemma no_ws_encoded: "filter (\<lambda>c. \<not> ascii_whitespace c) (base64_encode s) = base64_encode s"
proof -
  have "\<not> ascii_whitespace c" if "c \<in> set (map b64_char (sextets s))" for c
    using that sextets_lt [of s] b64_char_plain by (auto simp: list_all_iff)
  moreover have "\<not> ascii_whitespace c" if "c \<in> set (padding s)" for c
    using that encode_shape [of s] by (auto simp: ascii_whitespace_def)
  ultimately show ?thesis
    unfolding base64_encode_def filter_id_conv by auto
qed

lemma body_no_pad: "\<not> endsWith (map b64_char (sextets s)) (ys @ ''='')"
proof
  assume "endsWith (map b64_char (sextets s)) (ys @ ''='')"
  then have ne: "map b64_char (sextets s) \<noteq> []" and l: "last (map b64_char (sextets s)) = CHR ''=''"
    using endsWith_lastD by blast+
  from ne have "last (map b64_char (sextets s)) \<in> set (map b64_char (sextets s))"
    by (rule last_in_set)
  then obtain n where "n \<in> set (sextets s)" "b64_char n = CHR ''=''"
    unfolding l by auto
  with sextets_lt [of s] b64_char_plain [of n] show False by (auto simp: list_all_iff)
qed

lemma strip_padding_encoded:
  "length (base64_encode s) mod 4 = 0 \<and> strip_padding (base64_encode s) = map b64_char (sextets s)
     \<and> length (sextets s) mod 4 \<noteq> 1"
proof -
  let ?body = "map b64_char (sextets s)"
  have m: "(4 * k) mod 4 = (0::nat)" "(4 * k + 2 + 2) mod 4 = (0::nat)"
    "(4 * k + 3 + 1) mod 4 = (0::nat)" "(4 * k + 2) mod 4 = (2::nat)" "(4 * k + 3) mod 4 = (3::nat)"
    for k :: nat
    by presburger+
  from encode_shape [of s] show ?thesis
  proof (elim disjE conjE exE)
    fix k assume p: "padding s = []" and l: "length (sextets s) = 4 * k"
    have "strip_padding ?body = ?body"
      using body_no_pad [of s "[]"] body_no_pad [of s "''=''"] by (simp add: strip_padding_def)
    then show ?thesis using p l m by (simp add: base64_encode_def)
  next
    fix k assume p: "padding s = ''==''" and l: "length (sextets s) = 4 * k + 2"
    have "endsWith (?body @ ''=='') ''==''" by (simp add: endsWith_def)
    then have "strip_padding (?body @ ''=='') = ?body" by (simp add: strip_padding_def)
    then show ?thesis using p l m(2) [of k] m(4) [of k] by (simp add: base64_encode_def)
  next
    fix k assume p: "padding s = ''=''" and l: "length (sextets s) = 4 * k + 3"
    have "endsWith (?body @ ''='') ''=''" by (simp add: endsWith_def)
    moreover have "\<not> endsWith (?body @ ''='') ''==''"
      using endsWith_snoc [of ?body "CHR ''=''" "''=''" "CHR ''=''"] body_no_pad [of s "[]"]
      by simp
    ultimately have "strip_padding (?body @ ''='') = ?body" by (simp add: strip_padding_def)
    then show ?thesis using p l m(3) [of k] m(5) [of k] by (simp add: base64_encode_def)
  qed
qed

lemma atob_encoded: "atob (base64_encode s) = Some s"
proof -
  from strip_padding_encoded [of s]
  have 1: "length (base64_encode s) mod 4 = 0"
    and 2: "strip_padding (base64_encode s) = map b64_char (sextets s)"
    and 3: "length (sextets s) mod 4 \<noteq> 1" by blast+
  have "atob (base64_encode s) =
      map_option sextets_to_bytes (those (map b64_index (map b64_char (sextets s))))"
    unfolding atob_def no_ws_encoded Let_def using 1 2 3 by simp
  also have "\<dots> = Some s"
    unfolding those_b64_index [OF sextets_lt [of s]] by (simp add: sextets_to_bytes_sextets)
  finally show ?thesis .
qed

lemma those_padded: "those (map b64_index (xs @ ''=='')) = None"
proof -
  have "b64_index CHR ''='' = None" by (simp add: b64_index_def)
  then show ?thesis by (induction xs) (auto split: option.splits)
qed

lemma atob_encoded_padded: "atob (base64_encode s @ ''=='') = None"
proof -
  let ?e = "base64_encode s"
  have "\<not> ascii_whitespace CHR ''=''" by (simp add: ascii_whitespace_def)
  then have nows: "filter (\<lambda>c. \<not> ascii_whitespace c) (?e @ ''=='') = ?e @ ''==''"
    by (simp add: no_ws_encoded)
  have "length ?e mod 4 = 0" using strip_padding_encoded by blast
  then have len: "length (?e @ ''=='') mod 4 = 2"
    by (simp add: mod_Suc)
  have "atob (?e @ ''=='') = map_option sextets_to_bytes (those (map b64_index (?e @ ''=='')))"
    unfolding atob_def nows Let_def using len by simp
  then show ?thesis by (simp only: those_padded option.map)
qed

lemma clearTrash_encoded: "replace_trash True t = base64_encode s \<Longrightarrow> clearTrash t = s"
  by (simp add: clearTrash_def Let_def atob_encoded atob_encoded_padded)

lemma trash4D: "trash4 a b c d \<Longrightarrow> (trash_head1 a b \<or> trash_head2 a b) \<and> trash_tail c d"
  by (auto simp: trash4_def trash_tail_def)

lemma head_first:
  "trash_head1 a b \<or> trash_head2 a b \<Longrightarrow> a \<noteq> CHR ''#'' \<and> a \<noteq> CHR ''/'' \<and> a \<noteq> CHR ''_''"
  by (auto simp: trash_head1_def trash_head2_def)

lemma marker_start_not_second:
  "marker_start a b \<Longrightarrow> \<not> (trash_head1 x a \<or> trash_head2 x a)"
  by (auto simp: marker_start_def trash_head1_def trash_head2_def)

lemma marker_start_not_tail: "marker_start a b \<Longrightarrow> \<not> trash_tail a b"
  by (auto simp: marker_start_def trash_head1_def trash_head2_def trash_tail_def
      trash_tail1_def trash_tail2_def)

lemma marker_start_not_tail_end: "marker_start a b \<Longrightarrow> \<not> trash_tail c a"
  by (auto simp: marker_start_def trash_head1_def trash_head2_def trash_tail_def
      trash_tail1_def trash_tail2_def)

lemma marker_start_slash:
  "marker_start a b \<Longrightarrow> a \<noteq> CHR ''_'' \<and> \<not> (a = CHR ''/'' \<and> b = CHR ''_'')"
  by (auto simp: marker_start_def trash_head1_def trash_head2_def)

lemma is_markerD:
  "is_marker m \<Longrightarrow> \<exists>a b r. m = a # b # r \<and> marker_start a b"
  by (auto simp: is_marker_def marker_start_def trash4_def split: list.splits)

lemma trash_match_marker: "is_marker m \<Longrightarrow> trash_match b (m @ r) = Some (length m)"
proof -
  assume "is_marker m"
  then consider "m = ''//_//''" | a b c d where "m = [a, b, c, d]" "trash4 a b c d"
    by (auto simp: is_marker_def split: list.splits)
  then show ?thesis
  proof cases
    case 1
    then show ?thesis by (simp add: trash_match_def startsWith_def)
  next
    case 2
    with trash4D [of a b c d] head_first [of a b] show ?thesis
      by (auto simp: trash_match_def startsWith_def)
  qed
qed

lemma token_front:
  assumes "list_all valid_piece ps"
  shows "ps = []
    \<or> (\<exists>a b r. token_of ps = a # b # r \<and> marker_start a b)
    \<or> (\<exists>c ps'. ps = Payload c # ps' \<and> list_all valid_piece ps')"
proof (cases ps)
  case Nil
  then show ?thesis by simp
next
  case (Cons p ps')
  show ?thesis
  proof (cases p)
    case (Payload c)
    with Cons assms show ?thesis by simp
  next
    case (Junk m)
    with Cons assms have "is_marker m" by simp
    from is_markerD [OF this] obtain a b r where "m = a # b # r" "marker_start a b" by blast
    with Cons Junk show ?thesis by simp
  qed
qed

lemma junk_free_tl: "junk_free (c # e) \<Longrightarrow> junk_free e"
  by (cases e rule: junk_free.cases) auto

lemma trash_match_payload:
  assumes v: "list_all valid_piece ps"
    and j: "junk_free (c # payload_of ps)"
    and u: "CHR ''_'' \<notin> set (c # payload_of ps)"
    and h: "CHR ''#'' \<notin> set (c # payload_of ps)"
  shows "trash_match b (c # token_of ps) = None"
proof (rule ccontr)
  assume "trash_match b (c # token_of ps) \<noteq> None"
  then consider
      (hash) "startsWith (c # token_of ps) ''#h''"
    | (sep) "startsWith (c # token_of ps) ''//_//''"
    | (four) b2 c2 d2 r where "token_of ps = b2 # c2 # d2 # r" "trash4 c b2 c2 d2"
    by (auto simp: trash_match_def split: if_splits list.splits)
  then show False
  proof cases
    case hash
    with h show False by (simp add: startsWith_def)
  next
    case sep
    then obtain r where c: "c = CHR ''/''" and t: "token_of ps = CHR ''/'' # CHR ''_'' # r"
      by (cases "token_of ps"; cases "tl (token_of ps)") (auto simp: startsWith_def)
    from token_front [OF v] t obtain ps1 where ps: "ps = Payload CHR ''/'' # ps1"
      and v1: "list_all valid_piece ps1"
      using marker_start_slash [of "CHR ''/''" "CHR ''_''"] by auto
    with t have t1: "token_of ps1 = CHR ''_'' # r" by simp
    from token_front [OF v1] t1 obtain ps2 where "ps1 = Payload CHR ''_'' # ps2"
      using marker_start_slash [of "CHR ''_''"] by auto
    with ps u show False by simp
  next
    case four
    from trash4D [OF four(2)] have hd: "trash_head1 c b2 \<or> trash_head2 c b2"
      and tl: "trash_tail c2 d2" by blast+
    from token_front [OF v] four(1) obtain ps1 where ps: "ps = Payload b2 # ps1"
      and v1: "list_all valid_piece ps1"
      using marker_start_not_second [of b2 c2 c] hd by auto
    with four(1) have t1: "token_of ps1 = c2 # d2 # r" by simp
    from token_front [OF v1] t1 obtain ps2 where ps1: "ps1 = Payload c2 # ps2"
      and v2: "list_all valid_piece ps2"
      using marker_start_not_tail [of c2 d2] tl by auto
    with t1 have t2: "token_of ps2 = d2 # r" by simp
    from token_front [OF v2] t2 obtain ps3 where ps2: "ps2 = Payload d2 # ps3"
      using marker_start_not_tail_end [of d2 _ c2] tl by auto
    from j four(2) show False by (simp add: ps ps1 ps2)
  qed
qed

lemma replace_trash_token:
  assumes "list_all valid_piece ps" "junk_free (payload_of ps)"
    "CHR ''_'' \<notin> set (payload_of ps)" "CHR ''#'' \<notin> set (payload_of ps)"
  shows "replace_trash b (token_of ps) = payload_of ps"
  using assms
proof (induction ps arbitrary: b)
  case Nil
  then show ?case by simp
next
  case (Cons p ps)
  show ?case
  proof (cases p)
    case (Payload c)
    with Cons.prems have v: "list_all valid_piece ps"
      and j: "junk_free (c # payload_of ps)"
      and u: "CHR ''_'' \<notin> set (c # payload_of ps)"
      and h: "CHR ''#'' \<notin> set (c # payload_of ps)" by simp_all
    have "replace_trash False (token_of ps) = payload_of ps"
      using v junk_free_tl [OF j] u h by (intro Cons.IH) simp_all
    with trash_match_payload [OF v j u h, of b] Payload show ?thesis by simp
  next
    case (Junk m)
    with Cons.prems have m: "is_marker m" and v: "list_all valid_piece ps" by simp_all
    from is_markerD [OF m] obtain a r where mm: "m = a # r" by blast
    have "replace_trash b (m @ token_of ps) = replace_trash False (token_of ps)"
      using trash_match_marker [OF m, of b "token_of ps"] by (simp add: mm)
    also have "\<dots> = payload_of ps"
      using Cons.prems Junk v by (intro Cons.IH) simp_all
    finally show ?thesis using Junk by simp
  qed
qed

lemma replace_trash_prefix: "replace_trash True (''#h'' @ t) = replace_trash False t"
  by (simp add: trash_match_def startsWith_def)

lemma replace_trash_prefixed_token:
  assumes "list_all valid_piece ps" "junk_free (payload_of ps)"
    "CHR ''_'' \<notin> set (payload_of ps)" "CHR ''#'' \<notin> set (payload_of ps)"
  shows "replace_trash True (''#h'' @ token_of ps) = payload_of ps"
  unfolding replace_trash_prefix by (rule replace_trash_token [OF assms])

lemma encoded_chars: "CHR ''_'' \<notin> set (base64_encode s) \<and> CHR ''#'' \<notin> set (base64_encode s)"
proof -
  have "c \<noteq> CHR ''_'' \<and> c \<noteq> CHR ''#''" if "c \<in> set (map b64_char (sextets s))" for c
    using that sextets_lt [of s] b64_char_plain by (auto simp: list_all_iff)
  moreover have "c \<noteq> CHR ''_'' \<and> c \<noteq> CHR ''#''" if "c \<in> set (padding s)" for c
    using that encode_shape [of s] by auto
  ultimately show ?thesis unfolding base64_encode_def by auto
qed

text \<open>
  C2, as stated, fails: the base64 text of the clear string \<open>!@@\<close> is \<open>IUBA\<close>, which
  the third alternative of the pattern matches; the deobfuscator removes it with the
  prefix \<open>#h\<close> and returns the empty string.
\<close>

theorem deobfuscate_roundtrip_counterexample:
  "base64_encode ''!@@'' = ''IUBA''
   \<and> replace_trash True (''#h'' @ base64_encode ''!@@'') = []
   \<and> clearTrash (''#h'' @ base64_encode ''!@@'') = []"
  by (simp add: base64_encode_def b64_char_def js_eval)

text \<open>
  C2, amended. The deobfuscator drops, in one pass from left to right, every match of
  the pattern that begins where the previous match ended or a kept character was, then
  decodes the rest with \<open>==\<close> appended and, when that fails, as it is. For a payload
  without \<open>_\<close> and \<open>#\<close> in which no four characters in a row are a marker, and markers
  put anywhere between its characters (several in a row, with no separator), with or
  without the prefix \<open>#h\<close>, what is left is the payload. So for every clear string
  whose base64 text has no four characters in a row that are a marker, deobfuscating
  that text with markers interspersed returns the clear string.
\<close>

theorem deobfuscate_roundtrip:
  "(list_all valid_piece ps \<and> junk_free (payload_of ps)
      \<and> CHR ''_'' \<notin> set (payload_of ps) \<and> CHR ''#'' \<notin> set (payload_of ps) \<longrightarrow>
      replace_trash True (token_of ps) = payload_of ps
      \<and> replace_trash True (''#h'' @ token_of ps) = payload_of ps)
   \<and> clearTrash t =
       (case atob (replace_trash True t @ ''=='') of
          Some r \<Rightarrow> r
        | None \<Rightarrow> (case atob (replace_trash True t) of Some r \<Rightarrow> r | None \<Rightarrow> []))
   \<and> (list_all valid_piece ps \<and> payload_of ps = base64_encode s
      \<and> junk_free (base64_encode s) \<longrightarrow>
      clearTrash (token_of ps) = s \<and> clearTrash (''#h'' @ token_of ps) = s)"
proof (intro conjI impI)
  assume a: "list_all valid_piece ps \<and> junk_free (payload_of ps)
      \<and> CHR ''_'' \<notin> set (payload_of ps) \<and> CHR ''#'' \<notin> set (payload_of ps)"
  then show "replace_trash True (token_of ps) = payload_of ps"
    by (intro replace_trash_token) simp_all
  from a show "replace_trash True (''#h'' @ token_of ps) = payload_of ps"
    by (intro replace_trash_prefixed_token) simp_all
next
  show "clearTrash t =
       (case atob (replace_trash True t @ ''=='') of
          Some r \<Rightarrow> r
        | None \<Rightarrow> (case atob (replace_trash True t) of Some r \<Rightarrow> r | None \<Rightarrow> []))"
    by (simp add: clearTrash_def Let_def)
next
  assume a: "list_all valid_piece ps \<and> payload_of ps = base64_encode s
      \<and> junk_free (base64_encode s)"
  with encoded_chars [of s]
  have p: "list_all valid_piece ps" "junk_free (payload_of ps)"
    "CHR ''_'' \<notin> set (payload_of ps)" "CHR ''#'' \<notin> set (payload_of ps)" by simp_all
  from a replace_trash_token [OF p, of True]
  show "clearTrash (token_of ps) = s" by (intro clearTrash_encoded) simp
  from a replace_trash_prefixed_token [OF p]
  show "clearTrash (''#h'' @ token_of ps) = s" by (intro clearTrash_encoded) simp
qed

theorem deobfuscate_roundtrip_witness:
  "token_of [Junk ''//_//'', Payload CHR ''Y'', Payload CHR ''W'', Junk ''QEBA'', Junk ''IUBA'',
      Payload CHR ''J'', Payload CHR ''j'', Junk ''//_//''] = ''//_//YWQEBAIUBAJj//_//''
   \<and> base64_encode ''abc'' = ''YWJj''
   \<and> junk_free ''YWJj''
   \<and> replace_trash True ''#h//_//YWQEBAIUBAJj//_//'' = ''YWJj''
   \<and> clearTrash ''//_//YWQEBAIUBAJj//_//'' = ''abc''
   \<and> clearTrash ''#h//_//YWQEBAIUBAJj//_//'' = ''abc''"
  using deobfuscate_roundtrip
    [of "[Junk ''//_//'', Payload CHR ''Y'', Payload CHR ''W'', Junk ''QEBA'', Junk ''IUBA'',
      Payload CHR ''J'', Payload CHR ''j'', Junk ''//_//'']" "[]" "''abc''"]
  by (simp add: base64_encode_def b64_char_def is_marker_def js_eval)

section \<open>The best quality\<close>

lemma best_quality_tie:
  assumes "Object_keys v \<noteq> []"
  defines "tops \<equiv> filter (top_valued v) (map fst v)"
  shows "last (sort_key quality_rank (Object_keys v))
         = (if filter (\<lambda>k. \<not> is_array_index k) tops \<noteq> []
            then last (filter (\<lambda>k. \<not> is_array_index k) tops)
            else last (sort_key decimal_value (filter is_array_index tops)))"
proof -
  let ?P = "\<lambda>k. quality_rank k = Max (quality_rank ` fst ` set v)"
  have t: "tops = filter ?P (map fst v)"
    unfolding tops_def by (rule filter_cong) (simp_all add: top_valued_Max)
  have "last (sort_key quality_rank (Object_keys v)) = last (filter ?P (Object_keys v))"
    using last_sort_key_stable [OF assms(1), of quality_rank] by (simp add: set_Object_keys)
  also have "filter ?P (Object_keys v)
      = sort_key decimal_value (filter is_array_index tops)
        @ filter (\<lambda>k. \<not> is_array_index k) tops"
    unfolding Object_keys_split t
    by (simp add: filter_sort conj_commute)
  finally show ?thesis by simp
qed

lemma getStream_response_payload:
  assumes "getStream_response fr = Inr r" "fr = Resolved resp" "body_json resp = Some data"
    "get_property data ''url'' = Inr (JStr t)"
  shows "all_urls r = parse_decoded (clearTrash t)"
proof -
  have e: "parse_decoded (clearTrash []) = []" by (simp add: js_eval)
  from assms show ?thesis
    by (cases "t = []")
      (auto simp: getStream_response_def video_urls_of_def parseVideoUrls_def best_stream_def
        Let_def e split: if_splits sum.splits)
qed

lemma fixture_tie_result:
  "getStream_response fixture_tie =
     Inr \<lparr>stream_url = ''a.m3u8'', qualities = [''1080'', ''1080p''], subtitles = [],
       all_urls = [(''1080p'', ''a.m3u8''), (''1080'', ''b.m3u8'')]\<rparr>"
  by (simp add: fixture_tie_def js_eval)

lemma mixed_decoded:
  "clearTrash token_mixed =
     ''[720p]a.m3u8,[2160p]b.m3u8,[auto]c.m3u8,[1080]d.m3u8,[720p]e.m3u8,[480]f.m3u8''"
  by (simp add: token_mixed_def js_eval)

lemma mixed_result:
  "getStream_response (stream_envelope token_mixed) =
     Inr \<lparr>stream_url = ''b.m3u8'',
       qualities = [''auto'', ''480'', ''720p'', ''1080'', ''2160p''], subtitles = [],
       all_urls = [(''720p'', ''e.m3u8''), (''2160p'', ''b.m3u8''), (''auto'', ''c.m3u8''),
         (''1080'', ''d.m3u8''), (''480'', ''f.m3u8'')]\<rparr>"
  by (simp add: stream_envelope_def token_mixed_def js_eval)

lemma rounded_result:
  "getStream_response (stream_envelope token_rounded) =
     Inr \<lparr>stream_url = ''b.m3u8'',
       qualities = [''9007199254740993'', ''9007199254740992''], subtitles = [],
       all_urls = [(''9007199254740993'', ''a.m3u8''), (''9007199254740992'', ''b.m3u8'')]\<rparr>"
  by (simp add: stream_envelope_def token_rounded_def js_eval)

text \<open>
  C4, as stated, fails: with the labels \<open>1080p\<close> and then \<open>1080\<close> in the payload, both
  of the value 1080, the label met later is \<open>1080\<close>, but \<open>1080\<close> is an array index and
  so comes first among the keys; the stable sort leaves \<open>1080p\<close> last, and \<open>stream_url\<close>
  is the url of \<open>1080p\<close>, the label met first.
\<close>

theorem getStream_tie_counterexample:
  "parseVideoUrls ''WzEwODBwXWEubTN1OCxbMTA4MF1iLm0zdTg=''
     = [(''1080p'', ''a.m3u8''), (''1080'', ''b.m3u8'')]
   \<and> payload_labels (clearTrash ''WzEwODBwXWEubTN1OCxbMTA4MF1iLm0zdTg='') = [''1080p'', ''1080'']
   \<and> quality_num ''1080p'' = Finite 1080 \<and> quality_num ''1080'' = Finite 1080
   \<and> getStream_response fixture_tie =
       Inr \<lparr>stream_url = ''a.m3u8'', qualities = [''1080'', ''1080p''], subtitles = [],
         all_urls = [(''1080p'', ''a.m3u8''), (''1080'', ''b.m3u8'')]\<rparr>"
  by (simp add: fixture_tie_result)
    (simp add: payload_labels_def part_binding_def List.map_filter_simps js_eval)

text \<open>
  C4, amended. The value of a label is the number \<open>parseInt(label) || 0\<close>: zero for a
  label that begins with no digit, sign or white space; for a run of digits followed by
  nothing or by a character that is no digit and no \<open>x\<close>, the double nearest to the
  number of the digits, which is that number when it is below \<open>2^53\<close>. In every result of \<open>getStream\<close> the \<open>qualities\<close> are the labels of \<open>all_urls\<close>
  in ascending order of their values; the last of them, the best quality, has a value
  that no label exceeds, and \<open>stream_url\<close> is its url. Among the labels of that greatest
  value the winner is the one that comes last among the keys of the object: the labels
  that are array indices come first among the keys, in ascending order, and the other
  labels follow in the order in which the payload first yields them; so the winner is
  the label that the payload first yields last among those that are no array index, and
  an array index only when all of them are. Over
  \<open>{"720":"a.m3u8","1080":"b.m3u8","360":"c.m3u8"}\<close> the \<open>stream_url\<close> is \<open>b.m3u8\<close>.
\<close>

theorem getStream_best_quality:
  "getStream_response fr = Inr r \<Longrightarrow>
     sorted_wrt (\<lambda>a b. num_le (quality_num a) (quality_num b)) (qualities r)
     \<and> qualities r = sort_js compare_qualities (Object_keys (all_urls r))
     \<and> set (qualities r) = fst ` set (all_urls r)
     \<and> length (qualities r) = length (all_urls r)
     \<and> Object_keys (all_urls r) =
         sort_key decimal_value (filter is_array_index (map fst (all_urls r)))
         @ filter (\<lambda>k. \<not> is_array_index k) (map fst (all_urls r))
     \<and> (\<forall>resp data t. fr = Resolved resp \<and> body_json resp = Some data
            \<and> get_property data ''url'' = Inr (JStr t) \<longrightarrow>
          map fst (all_urls r) = dedup_into [] (payload_labels (clearTrash t)))
     \<and> (qualities r \<noteq> [] \<longrightarrow>
          top_valued (all_urls r) (last (qualities r))
          \<and> map_of (all_urls r) (last (qualities r)) = Some (stream_url r)
          \<and> last (qualities r) =
              (let tops = filter (top_valued (all_urls r)) (map fst (all_urls r));
                   named = filter (\<lambda>k. \<not> is_array_index k) tops
               in if named \<noteq> [] then last named
                  else last (sort_key decimal_value (filter is_array_index tops))))
     \<and> stream_url (best_stream
           [(''720'', ''a.m3u8''), (''1080'', ''b.m3u8''), (''360'', ''c.m3u8'')] subs) = ''b.m3u8''
     \<and> (\<forall>ds rest. numeric ds \<and> plain_tail rest \<longrightarrow>
           quality_num (ds @ rest) = to_number (int (decimal_value ds)))
     \<and> (\<forall>ds rest. numeric ds \<and> plain_tail rest \<and> decimal_value ds < 2 ^ 53 \<longrightarrow>
           quality_num (ds @ rest) = Finite (int (decimal_value ds)))
     \<and> (\<forall>l. non_numeric l \<longrightarrow> quality_num l = Finite 0)"
proof -
  assume a: "getStream_response fr = Inr r"
  then obtain v s where r: "r = best_stream v s"
    using getStream_response_best by blast
  have q: "qualities r = sort_key quality_rank (Object_keys v)" and u: "all_urls r = v"
    by (simp_all add: r best_stream_fields)
  have 1: "sorted_wrt (\<lambda>a b. num_le (quality_num a) (quality_num b)) (qualities r)"
    unfolding r by (rule best_stream_sorted)
  have 2: "set (qualities r) = fst ` set (all_urls r)"
    by (simp add: q u set_Object_keys)
  have 3: "length (qualities r) = length (all_urls r)"
    by (simp add: q u Object_keys_def length_own_properties)
  have 4: "top_valued (all_urls r) (last (qualities r))" if "qualities r \<noteq> []"
    using that best_stream_top [of v s] by (simp add: r best_stream_fields)
  have 5: "map_of (all_urls r) (last (qualities r)) = Some (stream_url r)"
    if "qualities r \<noteq> []"
    using that best_stream_url [of v s] by (simp add: r)
  have 6: "last (qualities r) =
              (let tops = filter (top_valued (all_urls r)) (map fst (all_urls r));
                   named = filter (\<lambda>k. \<not> is_array_index k) tops
               in if named \<noteq> [] then last named
                  else last (sort_key decimal_value (filter is_array_index tops)))"
    if "qualities r \<noteq> []"
  proof -
    from that have "Object_keys v \<noteq> []" by (auto simp: q)
    from best_quality_tie [OF this] show ?thesis
      by (simp add: q u Let_def)
  qed
  have 7: "stream_url (best_stream
           [(''720'', ''a.m3u8''), (''1080'', ''b.m3u8''), (''360'', ''c.m3u8'')] subs) = ''b.m3u8''"
    by (simp add: js_eval)
  have 8: "qualities r = sort_js compare_qualities (Object_keys (all_urls r))"
    by (simp add: q u sort_js_sort_key)
  have 9: "Object_keys (all_urls r) =
         sort_key decimal_value (filter is_array_index (map fst (all_urls r)))
         @ filter (\<lambda>k. \<not> is_array_index k) (map fst (all_urls r))"
    by (rule Object_keys_split)
  have 10: "\<forall>resp data t. fr = Resolved resp \<and> body_json resp = Some data
            \<and> get_property data ''url'' = Inr (JStr t) \<longrightarrow>
          map fst (all_urls r) = dedup_into [] (payload_labels (clearTrash t))"
  proof (intro allI impI)
    fix resp data t
    assume "fr = Resolved resp \<and> body_json resp = Some data
            \<and> get_property data ''url'' = Inr (JStr t)"
    then have "all_urls r = parse_decoded (clearTrash t)"
      using getStream_response_payload [OF a, of resp data t] by blast
    then show "map fst (all_urls r) = dedup_into [] (payload_labels (clearTrash t))"
      by (simp only: keys_parse_decoded)
  qed
  have 11: "\<forall>ds rest. numeric ds \<and> plain_tail rest \<longrightarrow>
           quality_num (ds @ rest) = to_number (int (decimal_value ds))"
    using quality_num_digits by blast
  have 12: "\<forall>ds rest. numeric ds \<and> plain_tail rest \<and> decimal_value ds < 2 ^ 53 \<longrightarrow>
           quality_num (ds @ rest) = Finite (int (decimal_value ds))"
    using quality_num_exact by blast
  have 13: "\<forall>l. non_numeric l \<longrightarrow> quality_num l = Finite 0"
    using quality_num_non_numeric by blast
  show ?thesis
    by (intro conjI impI; (rule 1 2 3 7 8 9 10 11 12 13 | (rule 4 5 6, assumption)))
qed

theorem getStream_best_quality_witness:
  "getStream_response (stream_envelope token_mixed) =
     Inr \<lparr>stream_url = ''b.m3u8'',
       qualities = [''auto'', ''480'', ''720p'', ''1080'', ''2160p''], subtitles = [],
       all_urls = [(''720p'', ''e.m3u8''), (''2160p'', ''b.m3u8''), (''auto'', ''c.m3u8''),
         (''1080'', ''d.m3u8''), (''480'', ''f.m3u8'')]\<rparr>
   \<and> payload_labels (clearTrash token_mixed) =
       [''720p'', ''2160p'', ''auto'', ''1080'', ''720p'', ''480'']
   \<and> dedup_into [] [''720p'', ''2160p'', ''auto'', ''1080'', ''720p'', ''480''] =
       [''720p'', ''2160p'', ''auto'', ''1080'', ''480'']
   \<and> map quality_num [''auto'', ''480'', ''720p'', ''1080'', ''2160p''] =
       [Finite 0, Finite 480, Finite 720, Finite 1080, Finite 2160]
   \<and> top_valued [(''720p'', ''e.m3u8''), (''2160p'', ''b.m3u8''), (''auto'', ''c.m3u8''),
         (''1080'', ''d.m3u8''), (''480'', ''f.m3u8'')] ''2160p''
   \<and> getStream_response (stream_envelope token_rounded) =
     Inr \<lparr>stream_url = ''b.m3u8'',
       qualities = [''9007199254740993'', ''9007199254740992''], subtitles = [],
       all_urls = [(''9007199254740993'', ''a.m3u8''), (''9007199254740992'', ''b.m3u8'')]\<rparr>
   \<and> quality_num ''9007199254740993'' = Finite 9007199254740992
   \<and> quality_num ''9007199254740992'' = Finite 9007199254740992"
proof -
  have p: "payload_labels (clearTrash token_mixed) =
       [''720p'', ''2160p'', ''auto'', ''1080'', ''720p'', ''480'']"
    unfolding mixed_decoded
    by (simp add: payload_labels_def part_binding_def List.map_filter_simps js_eval)
  have d: "dedup_into [] [''720p'', ''2160p'', ''auto'', ''1080'', ''720p'', ''480''] =
       [''720p'', ''2160p'', ''auto'', ''1080'', ''480'']"
    by (simp add: dedup_into_def)
  have n: "quality_num ''auto'' = Finite 0" "quality_num ''480'' = Finite 480"
    "quality_num ''720p'' = Finite 720" "quality_num ''1080'' = Finite 1080"
    "quality_num ''2160p'' = Finite 2160"
    "quality_num ''9007199254740993'' = Finite 9007199254740992"
    "quality_num ''9007199254740992'' = Finite 9007199254740992"
    by (simp_all add: js_eval)
  note best = getStream_best_quality [OF mixed_result, of "[]"]
  note top = best [THEN conjunct2, THEN conjunct2, THEN conjunct2, THEN conjunct2,
      THEN conjunct2, THEN conjunct2, THEN conjunct1, THEN mp, THEN conjunct1]
  have "top_valued [(''720p'', ''e.m3u8''), (''2160p'', ''b.m3u8''), (''auto'', ''c.m3u8''),
         (''1080'', ''d.m3u8''), (''480'', ''f.m3u8'')] ''2160p''"
    using top by simp
  then show ?thesis by (simp add: mixed_result rounded_result p d n)
qed

section \<open>Decoding failures\<close>

lemma parse_decoded_empty: "parse_decoded [] = []"
  by (simp add: parse_decoded_def split_js_def parse_part_def match_quality_def)

lemma best_stream_no_urls:
  "best_stream [] subs = \<lparr>stream_url = [], qualities = [], subtitles = subs, all_urls = []\<rparr>"
  by (simp add: best_stream_def Object_keys_def own_properties_def sort_js_def)

lemma getStream_response_object:
  assumes "ok resp" "body_json resp = Some (JObj ps)" "\<not> failure_flag (JObj ps)"
  shows "getStream_response (Resolved resp) =
     (case video_urls_of (case map_of ps ''url'' of None \<Rightarrow> JUndefined | Some u \<Rightarrow> u) of
        Inl e \<Rightarrow> Inl e
      | Inr videoUrls \<Rightarrow>
          Inr (best_stream videoUrls
                (parseSubtitles
                  (case map_of ps ''subtitle'' of None \<Rightarrow> JUndefined | Some u \<Rightarrow> u)
                  (case map_of ps ''subtitle_lns'' of None \<Rightarrow> JUndefined | Some u \<Rightarrow> u))))"
  using assms
  by (auto simp: getStream_response_def failure_flag_def split: option.splits sum.splits)

text \<open>
  C5. When the decoding with the forced \<open>==\<close> fails, \<open>clearTrash\<close> decodes the stripped
  string as it is; when that fails too it returns the empty string, and no error is
  raised: for an envelope that is not rejected and carries such a token, \<open>getStream\<close>
  returns a result with an empty \<open>stream_url\<close>, no qualities and an empty mapping, and
  likewise for an envelope with no \<open>url\<close>.
\<close>

theorem deobfuscation_failure_is_silent:
  "(atob (replace_trash True t @ ''=='') = None \<longrightarrow>
      clearTrash t = (case atob (replace_trash True t) of None \<Rightarrow> [] | Some d \<Rightarrow> d))
   \<and> (atob (replace_trash True t @ ''=='') = None \<and> atob (replace_trash True t) = None \<longrightarrow>
      clearTrash t = []
      \<and> (ok resp \<and> body_json resp = Some (JObj ps) \<and> \<not> failure_flag (JObj ps)
           \<and> map_of ps ''url'' = Some (JStr t) \<longrightarrow>
         (\<exists>subs. getStream_response (Resolved resp) =
            Inr \<lparr>stream_url = [], qualities = [], subtitles = subs, all_urls = []\<rparr>)))
   \<and> (ok resp \<and> body_json resp = Some (JObj ps) \<and> \<not> failure_flag (JObj ps)
        \<and> map_of ps ''url'' = None \<longrightarrow>
      (\<exists>subs. getStream_response (Resolved resp) =
         Inr \<lparr>stream_url = [], qualities = [], subtitles = subs, all_urls = []\<rparr>))"
proof (intro conjI impI)
  assume "atob (replace_trash True t @ ''=='') = None"
  then show "clearTrash t = (case atob (replace_trash True t) of None \<Rightarrow> [] | Some d \<Rightarrow> d)"
    by (simp add: clearTrash_def Let_def)
next
  assume "atob (replace_trash True t @ ''=='') = None \<and> atob (replace_trash True t) = None"
  then show "clearTrash t = []"
    by (simp add: clearTrash_def Let_def)
next
  assume f: "atob (replace_trash True t @ ''=='') = None \<and> atob (replace_trash True t) = None"
    and e: "ok resp \<and> body_json resp = Some (JObj ps) \<and> \<not> failure_flag (JObj ps)
           \<and> map_of ps ''url'' = Some (JStr t)"
  from f have c: "clearTrash t = []" by (simp add: clearTrash_def Let_def)
  have "video_urls_of (JStr t) = Inr []"
    by (simp add: video_urls_of_def parseVideoUrls_def c parse_decoded_empty)
  with e show "\<exists>subs. getStream_response (Resolved resp) =
            Inr \<lparr>stream_url = [], qualities = [], subtitles = subs, all_urls = []\<rparr>"
    by (simp add: getStream_response_object best_stream_no_urls)
next
  assume e: "ok resp \<and> body_json resp = Some (JObj ps) \<and> \<not> failure_flag (JObj ps)
        \<and> map_of ps ''url'' = None"
  have "video_urls_of JUndefined = Inr []" by (simp add: video_urls_of_def)
  with e show "\<exists>subs. getStream_response (Resolved resp) =
         Inr \<lparr>stream_url = [], qualities = [], subtitles = subs, all_urls = []\<rparr>"
    by (simp add: getStream_response_object best_stream_no_urls)
qed

theorem deobfuscation_failure_is_silent_witness:
  "atob (replace_trash True ''!!!'' @ ''=='') = None \<and> atob (replace_trash True ''!!!'') = None
   \<and> clearTrash ''!!!'' = []
   \<and> getStream_response (Resolved fixture_garbled) =
        Inr \<lparr>stream_url = [], qualities = [], subtitles = [], all_urls = []\<rparr>
   \<and> getStream_response (Resolved fixture_no_url) =
        Inr \<lparr>stream_url = [], qualities = [], subtitles = [], all_urls = []\<rparr>"
  using deobfuscation_failure_is_silent
    [of "''!!!''" fixture_garbled "[(''success'', JBool True), (''url'', JStr ''!!!'')]"]
    deobfuscation_failure_is_silent
    [of "''!!!''" fixture_no_url "[(''success'', JBool True)]"]
  by (simp add: fixture_garbled_def fixture_no_url_def failure_flag_def js_eval)

section \<open>The errors of the stream fetcher\<close>

lemma get_property_Inl: "(get_property data k = Inl e) = ((data = JNull \<or> data = JUndefined) \<and> e = TypeError)"
  by (cases data) auto

lemma video_urls_of_Inl: "(video_urls_of u = Inl e) = (truthy u \<and> (case u of JStr t \<Rightarrow> False | _ \<Rightarrow> True) \<and> e = TypeError)"
  by (cases u) (auto simp: video_urls_of_def)

lemma getStream_response_data:
  assumes "ok resp" "body_json resp = Some data"
  shows "getStream_response (Resolved resp) =
     (if data = JNull \<or> data = JUndefined then Inl TypeError
      else if failure_flag data
      then Inl (Error (case get_property data ''message'' of
                         Inr m \<Rightarrow> if truthy m then m else JStr ''AJAX request failed''
                       | Inl e \<Rightarrow> JUndefined))
      else if unusable_url data then Inl TypeError
      else getStream_response (Resolved resp))"
  using assms
  by (cases data)
    (auto simp: getStream_response_def failure_flag_def unusable_url_def video_urls_of_def
      split: option.splits sum.splits jsval.splits)

lemma getStream_response_Inr:
  assumes "ok resp" "body_json resp = Some data" "data \<noteq> JNull" "data \<noteq> JUndefined"
    "\<not> failure_flag data" "\<not> unusable_url data"
  shows "\<exists>r. getStream_response (Resolved resp) = Inr r"
proof -
  from assms(3,4) obtain sv where sv: "get_property data ''success'' = Inr sv"
    by (cases data) auto
  from assms(3,4) obtain u where u: "get_property data ''url'' = Inr u"
    by (cases data) auto
  from assms(3,4) obtain sd where sd: "get_property data ''subtitle'' = Inr sd"
    by (cases data) auto
  from assms(3,4) obtain sl where sl: "get_property data ''subtitle_lns'' = Inr sl"
    by (cases data) auto
  from assms(6) u obtain v where v: "video_urls_of u = Inr v"
    by (cases "video_urls_of u") (auto simp: unusable_url_def video_urls_of_Inl)
  from assms(5) sv have "truthy sv \<or> sv = JUndefined" by (auto simp: failure_flag_def)
  with assms(1,2) sv u sd sl v show ?thesis
    by (auto simp: getStream_response_def)
qed

text \<open>
  C6, amended. \<open>getStream\<close> fails when the \<open>fetch\<close> rejects, when the status is not
  a 2xx (the message carries the status), and when the envelope has a \<open>success\<close> that is
  defined and falsy: the message is then the envelope's \<open>message\<close> when that is truthy
  and \<open>AJAX request failed\<close> otherwise. An envelope without \<open>success\<close> is not
  rejected. These are not the only failures: it also fails when the body is not JSON,
  when the body is \<open>null\<close>, and when \<open>url\<close> is truthy and not a string; and in no
  other case.
\<close>

theorem getStream_errors:
  "(fr = Rejected \<longrightarrow> getStream_response fr = Inl NetworkError)
   \<and> (fr = Resolved resp \<and> \<not> ok resp \<longrightarrow>
        getStream_response fr =
          Inl (Error (JStr (''AJAX request failed: '' @ show_nat (status resp)))))
   \<and> (fr = Resolved resp \<and> ok resp \<and> body_json resp = Some (JObj ps)
        \<and> failure_flag (JObj ps) \<longrightarrow>
        getStream_response fr =
          Inl (Error (case map_of ps ''message'' of
                        None \<Rightarrow> JStr ''AJAX request failed''
                      | Some m \<Rightarrow> if truthy m then m else JStr ''AJAX request failed'')))
   \<and> (map_of ps ''success'' = None \<longrightarrow> \<not> failure_flag (JObj ps))
   \<and> ((\<exists>e. getStream_response fr = Inl e) \<longleftrightarrow>
        (fr = Rejected
         \<or> (\<exists>r. fr = Resolved r \<and>
               (\<not> ok r \<or> body_json r = None
                \<or> (\<exists>data. body_json r = Some data \<and>
                      (data = JNull \<or> data = JUndefined \<or> failure_flag data
                       \<or> unusable_url data))))))"
proof (intro conjI impI)
  assume "fr = Rejected"
  then show "getStream_response fr = Inl NetworkError" by (simp add: getStream_response_def)
next
  assume "fr = Resolved resp \<and> \<not> ok resp"
  then show "getStream_response fr =
          Inl (Error (JStr (''AJAX request failed: '' @ show_nat (status resp))))"
    by (simp add: getStream_response_def)
next
  assume a: "fr = Resolved resp \<and> ok resp \<and> body_json resp = Some (JObj ps)
        \<and> failure_flag (JObj ps)"
  then have "getStream_response fr = getStream_response (Resolved resp)" by simp
  also have "\<dots> = Inl (Error (case get_property (JObj ps) ''message'' of
                         Inr m \<Rightarrow> if truthy m then m else JStr ''AJAX request failed''
                       | Inl e \<Rightarrow> JUndefined))"
    using a by (subst getStream_response_data [of resp "JObj ps"]) simp_all
  finally show "getStream_response fr =
          Inl (Error (case map_of ps ''message'' of
                        None \<Rightarrow> JStr ''AJAX request failed''
                      | Some m \<Rightarrow> if truthy m then m else JStr ''AJAX request failed''))"
    by (simp split: option.splits)
next
  assume "map_of ps ''success'' = None"
  then show "\<not> failure_flag (JObj ps)" by (simp add: failure_flag_def)
next
  show "(\<exists>e. getStream_response fr = Inl e) \<longleftrightarrow>
        (fr = Rejected
         \<or> (\<exists>r. fr = Resolved r \<and>
               (\<not> ok r \<or> body_json r = None
                \<or> (\<exists>data. body_json r = Some data \<and>
                      (data = JNull \<or> data = JUndefined \<or> failure_flag data
                       \<or> unusable_url data)))))"
  proof (cases fr)
    case Rejected
    then show ?thesis by (simp add: getStream_response_def)
  next
    case (Resolved r)
    show ?thesis
    proof (cases "ok r")
      case False
      with Resolved show ?thesis by (simp add: getStream_response_def)
    next
      case True
      show ?thesis
      proof (cases "body_json r")
        case None
        with True Resolved show ?thesis by (simp add: getStream_response_def)
      next
        case (Some data)
        show ?thesis
        proof (cases "data = JNull \<or> data = JUndefined \<or> failure_flag data \<or> unusable_url data")
          case bad: True
          have "\<exists>e. getStream_response (Resolved r) = Inl e"
            using bad by (subst getStream_response_data [OF True Some]) auto
          with Resolved True Some bad show ?thesis by auto
        next
          case good: False
          with getStream_response_Inr [OF True Some]
          obtain x where "getStream_response (Resolved r) = Inr x" by blast
          with Resolved True Some good show ?thesis by auto
        qed
      qed
    qed
  qed
qed


text \<open>
  C6, as stated, fails: a 200 response whose envelope is \<open>{"success": true, "url": 5}\<close>
  has no failure flag, and \<open>getStream\<close> throws a TypeError, since a number has no
  \<open>replace\<close>.
\<close>

theorem getStream_errors_counterexample:
  "ok fixture_bad_url
   \<and> body_json fixture_bad_url = Some (JObj [(''success'', JBool True), (''url'', JNum (Finite 5))])
   \<and> getStream_response (Resolved fixture_bad_url) = Inl TypeError"
  by (simp add: fixture_bad_url_def js_eval)

theorem getStream_errors_witness:
  "getStream_response Rejected = Inl NetworkError
   \<and> \<not> ok fixture_forbidden
   \<and> getStream_response (Resolved fixture_forbidden)
       = Inl (Error (JStr ''AJAX request failed: 403''))
   \<and> ok fixture_rejected
   \<and> failure_flag (JObj [(''success'', JBool False), (''message'', JStr ''Time out'')])
   \<and> getStream_response (Resolved fixture_rejected) = Inl (Error (JStr ''Time out''))
   \<and> \<not> failure_flag (JObj [(''url'', JStr ''!!!'')])"
  using getStream_errors [of Rejected fixture_forbidden "[(''url'', JStr ''!!!'')]"]
    getStream_errors [of "Resolved fixture_forbidden" fixture_forbidden "[]"]
    getStream_errors [of "Resolved fixture_rejected" fixture_rejected
      "[(''success'', JBool False), (''message'', JStr ''Time out'')]"]
  by (simp add: fixture_forbidden_def fixture_rejected_def failure_flag_def js_eval)

section \<open>The content info of a page\<close>

lemma not_digit_dq: "\<not> is_digit dq"
  by (simp add: is_digit_def)

lemma attr_at_iff:
  "attr_at nm s = Some (ds, r) \<longleftrightarrow> s = attr nm ds @ r \<and> numeric ds"
proof
  assume a: "attr_at nm s = Some (ds, r)"
  let ?w = "nm @ ''='' @ [dq]"
  let ?t = "drop (length ?w) s"
  from a have w: "take (length ?w) s = ?w" and ds: "ds = takeWhile is_digit ?t" and ne: "ds \<noteq> []"
    and q: "startsWith (dropWhile is_digit ?t) [dq]" and r: "r = drop 1 (dropWhile is_digit ?t)"
    by (auto simp: attr_at_def Let_def startsWith_def split: if_splits)
  have d: "dropWhile is_digit ?t = dq # r"
  proof (cases "dropWhile is_digit ?t")
    case Nil
    from q have False unfolding Nil startsWith_def by simp
    then show ?thesis ..
  next
    case (Cons a u)
    from q r show ?thesis unfolding Cons startsWith_def by simp
  qed
  have "s = take (length ?w) s @ ?t" by simp
  also have "?t = takeWhile is_digit ?t @ dropWhile is_digit ?t" by simp
  finally have "s = ?w @ ds @ dq # r" unfolding w d ds [symmetric] .
  moreover have "list_all is_digit ds"
    unfolding ds list_all_iff by (auto dest: set_takeWhileD)
  ultimately show "s = attr nm ds @ r \<and> numeric ds"
    using ne by (simp add: attr_def numeric_def)
next
  assume a: "s = attr nm ds @ r \<and> numeric ds"
  let ?w = "nm @ ''='' @ [dq]"
  from a have s: "s = ?w @ ds @ dq # r" by (simp add: attr_def)
  from a have all: "\<forall>c \<in> set ds. is_digit c" and ne: "ds \<noteq> []"
    by (simp_all add: numeric_def list_all_iff)
  have t: "takeWhile is_digit (ds @ dq # r) = ds"
    using all not_digit_dq by (simp add: takeWhile_tail)
  have d: "dropWhile is_digit (ds @ dq # r) = dq # r"
    using all not_digit_dq by (simp add: dropWhile_append3)
  show "attr_at nm s = Some (ds, r)"
    unfolding attr_at_def s using t d ne by (simp add: startsWith_def Let_def)
qed

lemma first_attr_Some_iff: "first_attr nm html = Some ds \<longleftrightarrow> first_occurrence nm html ds"
proof (induction html)
  case Nil
  then show ?case by (simp add: first_occurrence_def attr_def)
next
  case (Cons c cs)
  show ?case
  proof (cases "attr_at nm (c # cs)")
    case (Some x)
    obtain d r where x: "x = (d, r)" by (cases x)
    from Some x have here: "c # cs = attr nm d @ r" "numeric d"
      using attr_at_iff by blast+
    have "first_occurrence nm (c # cs) ds \<longleftrightarrow> ds = d"
    proof
      assume "first_occurrence nm (c # cs) ds"
      then obtain pre post where p: "c # cs = pre @ attr nm ds @ post" "numeric ds"
        and m: "\<forall>pre' ds' post'. c # cs = pre' @ attr nm ds' @ post' \<and> numeric ds'
              \<longrightarrow> length pre \<le> length pre'"
        unfolding first_occurrence_def by blast
      from m here have "length pre \<le> length ([] :: string)"
        by (metis append_Nil)
      then have "pre = []" by simp
      with p have "attr_at nm (c # cs) = Some (ds, post)" using attr_at_iff by simp
      with Some x show "ds = d" by simp
    next
      assume "ds = d"
      with here show "first_occurrence nm (c # cs) ds"
        unfolding first_occurrence_def by (intro exI [of _ "[]"] exI [of _ r]) simp
    qed
    with Some x show ?thesis by auto
  next
    case None
    have no: "c # cs \<noteq> attr nm d @ r \<or> \<not> numeric d" for d r
      using None attr_at_iff [of nm "c # cs" d r] by auto
    have "first_occurrence nm (c # cs) ds \<longleftrightarrow> first_occurrence nm cs ds"
    proof
      assume "first_occurrence nm (c # cs) ds"
      then obtain pre post where p: "c # cs = pre @ attr nm ds @ post" "numeric ds"
        and m: "\<And>pre' ds' post'. c # cs = pre' @ attr nm ds' @ post' \<Longrightarrow> numeric ds'
              \<Longrightarrow> length pre \<le> length pre'"
        unfolding first_occurrence_def by blast
      from p no [of ds post] obtain p1 where pre: "pre = c # p1" by (cases pre) auto
      with p have 1: "cs = p1 @ attr nm ds @ post" by simp
      have "length p1 \<le> length p2" if "cs = p2 @ attr nm d2 @ r2" "numeric d2" for p2 d2 r2
        using m [of "c # p2" d2 r2] that pre by simp
      with 1 p(2) show "first_occurrence nm cs ds"
        unfolding first_occurrence_def by blast
    next
      assume "first_occurrence nm cs ds"
      then obtain pre post where p: "cs = pre @ attr nm ds @ post" "numeric ds"
        and m: "\<And>pre' ds' post'. cs = pre' @ attr nm ds' @ post' \<Longrightarrow> numeric ds'
              \<Longrightarrow> length pre \<le> length pre'"
        unfolding first_occurrence_def by blast
      have "length (c # pre) \<le> length p2" if "c # cs = p2 @ attr nm d2 @ r2" "numeric d2"
        for p2 d2 r2
      proof (cases p2)
        case Nil
        with that no [of d2 r2] show ?thesis by simp
      next
        case (Cons a p3)
        with that m [of p3 d2 r2] show ?thesis by simp
      qed
      moreover from p have "c # cs = (c # pre) @ attr nm ds @ post" by simp
      ultimately show "first_occurrence nm (c # cs) ds"
        unfolding first_occurrence_def using p(2) by blast
    qed
    with None Cons show ?thesis by simp
  qed
qed

lemma first_attr_None_iff: "first_attr nm html = None \<longleftrightarrow> no_occurrence nm html"
proof (induction html)
  case Nil
  then show ?case by (simp add: no_occurrence_def attr_def)
next
  case (Cons c cs)
  show ?case
  proof (cases "attr_at nm (c # cs)")
    case (Some x)
    obtain d r where x: "x = (d, r)" by (cases x)
    from Some x have "c # cs = [] @ attr nm d @ r" "numeric d"
      using attr_at_iff by auto
    then have "\<not> no_occurrence nm (c # cs)" unfolding no_occurrence_def by blast
    with Some x show ?thesis by simp
  next
    case None
    have no: "c # cs \<noteq> attr nm d @ r \<or> \<not> numeric d" for d r
      using None attr_at_iff [of nm "c # cs" d r] by auto
    have "no_occurrence nm (c # cs) \<longleftrightarrow> no_occurrence nm cs"
    proof
      assume a: "no_occurrence nm (c # cs)"
      show "no_occurrence nm cs"
        unfolding no_occurrence_def
      proof (intro allI impI)
        fix pre ds post assume "cs = pre @ attr nm ds @ post"
        then have "c # cs = (c # pre) @ attr nm ds @ post" by simp
        with a show "\<not> numeric ds" unfolding no_occurrence_def by blast
      qed
    next
      assume a: "no_occurrence nm cs"
      show "no_occurrence nm (c # cs)"
        unfolding no_occurrence_def
      proof (intro allI impI)
        fix pre ds post assume e: "c # cs = pre @ attr nm ds @ post"
        show "\<not> numeric ds"
        proof (cases pre)
          case Nil
          with e no [of ds post] show ?thesis by simp
        next
          case (Cons a p2)
          with e have "cs = p2 @ attr nm ds @ post" by simp
          with a show ?thesis unfolding no_occurrence_def by blast
        qed
      qed
    qed
    with None Cons show ?thesis by simp
  qed
qed

lemma startsWith_append: "startsWith s (w @ x) \<Longrightarrow> startsWith s w"
  unfolding startsWith_def
  by (metis append_eq_conv_conj length_append take_add take_take min.absorb1 le_add1)

lemma not_includes_Cons:
  "\<not> includes_js (c # cs) w \<Longrightarrow> \<not> startsWith (c # cs) w \<and> \<not> includes_js cs w"
  by simp

lemma attr_at_None: "\<not> startsWith s nm \<Longrightarrow> attr_at nm s = None"
  using startsWith_append [of s nm "''='' @ [dq]"] by (auto simp: attr_at_def Let_def)

lemma scan_translators_none:
  "\<not> includes_js html ''data-translator_id'' \<Longrightarrow> scan_translators html = []"
proof (induction html rule: scan_translators.induct)
  case 1
  then show ?case by simp
next
  case (2 c cs)
  from not_includes_Cons [OF "2.prems"]
  have s: "\<not> startsWith (c # cs) ''data-translator_id''"
    and i: "\<not> includes_js cs ''data-translator_id''" by blast+
  from attr_at_None [OF s] have "translator_at (c # cs) = None"
    by (simp add: translator_at_def)
  with "2.IH" i show ?case by simp
qed

lemma scan_episodes_none:
  "\<not> includes_js html ''data-season_id'' \<Longrightarrow> scan_episodes html = []"
proof (induction html rule: scan_episodes.induct)
  case 1
  then show ?case by simp
next
  case (2 c cs)
  from not_includes_Cons [OF "2.prems"]
  have s: "\<not> startsWith (c # cs) ''data-season_id''"
    and i: "\<not> includes_js cs ''data-season_id''" by blast+
  from attr_at_None [OF s] have "episode_at (c # cs) = None"
    by (simp add: episode_at_def)
  with "2.IH" i show ?case by simp
qed

lemma getContentInfo_response_ok:
  "ok resp \<Longrightarrow> getContentInfo_response page (Resolved resp) =
     Inr \<lparr>contentId = first_attr ''data-id'' (body_text resp),
          translatorId = first_attr ''data-translator_id'' (body_text resp),
          isSeries = (includes_js (body_text resp) ''sof.tv''
                      \<or> includes_js (body_text resp) ''data-season_id''
                      \<or> includes_js page ''/series/''),
          translators =
            map (\<lambda>m. \<lparr>translator_id = parseInt (fst m), translator_name = trim (snd m)\<rparr>)
              (scan_translators (body_text resp)),
          seasons = (if includes_js (body_text resp) ''sof.tv''
                        \<or> includes_js (body_text resp) ''data-season_id''
                        \<or> includes_js page ''/series/''
                     then foldl add_episode [] (scan_episodes (body_text resp)) else [])\<rparr>"
  by (simp add: getContentInfo_response_def Let_def)

text \<open>
  C7, amended. \<open>getContentInfo\<close> raises an error only when the \<open>fetch\<close> rejects or the
  status is not a 2xx. For every fetched page it returns: \<open>id\<close> is the value of the
  first \<open>data-id="digits"\<close> of the page and null when there is none, and likewise
  \<open>translatorId\<close> for \<open>data-translator_id\<close>; a page without \<open>data-translator_id\<close> has no
  translators and a page without \<open>data-season_id\<close> has no seasons; \<open>isSeries\<close> is true
  exactly when the page contains \<open>sof.tv\<close> or \<open>data-season_id\<close> or the URL contains
  \<open>/series/\<close>, so a page with neither marker has \<open>isSeries\<close> false only when none of
  the three holds.
\<close>

theorem getContentInfo_degrades:
  "((\<exists>e. getContentInfo_response page fr = Inl e) \<longleftrightarrow>
      (fr = Rejected \<or> (\<exists>r. fr = Resolved r \<and> \<not> ok r)))
   \<and> (fr = Resolved resp \<and> ok resp \<longrightarrow>
        (\<exists>info. getContentInfo_response page fr = Inr info
           \<and> (contentId info = Some ds \<longleftrightarrow> first_occurrence ''data-id'' (body_text resp) ds)
           \<and> (contentId info = None \<longleftrightarrow> no_occurrence ''data-id'' (body_text resp))
           \<and> (translatorId info = Some ds
                \<longleftrightarrow> first_occurrence ''data-translator_id'' (body_text resp) ds)
           \<and> (translatorId info = None
                \<longleftrightarrow> no_occurrence ''data-translator_id'' (body_text resp))
           \<and> isSeries info =
               (includes_js (body_text resp) ''sof.tv''
                \<or> includes_js (body_text resp) ''data-season_id''
                \<or> includes_js page ''/series/'')
           \<and> (\<not> includes_js (body_text resp) ''data-translator_id'' \<longrightarrow> translators info = [])
           \<and> (\<not> includes_js (body_text resp) ''data-season_id'' \<longrightarrow> seasons info = [])))"
proof (intro conjI impI)
  show "(\<exists>e. getContentInfo_response page fr = Inl e) \<longleftrightarrow>
      (fr = Rejected \<or> (\<exists>r. fr = Resolved r \<and> \<not> ok r))"
    by (cases fr) (auto simp: getContentInfo_response_def Let_def)
next
  assume a: "fr = Resolved resp \<and> ok resp"
  then have r: "getContentInfo_response page fr = Inr
     \<lparr>contentId = first_attr ''data-id'' (body_text resp),
          translatorId = first_attr ''data-translator_id'' (body_text resp),
          isSeries = (includes_js (body_text resp) ''sof.tv''
                      \<or> includes_js (body_text resp) ''data-season_id''
                      \<or> includes_js page ''/series/''),
          translators =
            map (\<lambda>m. \<lparr>translator_id = parseInt (fst m), translator_name = trim (snd m)\<rparr>)
              (scan_translators (body_text resp)),
          seasons = (if includes_js (body_text resp) ''sof.tv''
                        \<or> includes_js (body_text resp) ''data-season_id''
                        \<or> includes_js page ''/series/''
                     then foldl add_episode [] (scan_episodes (body_text resp)) else [])\<rparr>"
    using getContentInfo_response_ok [of resp page] by simp
  show "\<exists>info. getContentInfo_response page fr = Inr info
           \<and> (contentId info = Some ds \<longleftrightarrow> first_occurrence ''data-id'' (body_text resp) ds)
           \<and> (contentId info = None \<longleftrightarrow> no_occurrence ''data-id'' (body_text resp))
           \<and> (translatorId info = Some ds
                \<longleftrightarrow> first_occurrence ''data-translator_id'' (body_text resp) ds)
           \<and> (translatorId info = None
                \<longleftrightarrow> no_occurrence ''data-translator_id'' (body_text resp))
           \<and> isSeries info =
               (includes_js (body_text resp) ''sof.tv''
                \<or> includes_js (body_text resp) ''data-season_id''
                \<or> includes_js page ''/series/'')
           \<and> (\<not> includes_js (body_text resp) ''data-translator_id'' \<longrightarrow> translators info = [])
           \<and> (\<not> includes_js (body_text resp) ''data-season_id'' \<longrightarrow> seasons info = [])"
    unfolding r
    by (intro exI conjI, rule refl)
      (simp_all add: first_attr_Some_iff first_attr_None_iff scan_translators_none
        scan_episodes_none)
qed

text \<open>
  C7, as stated, fails: a page with neither \<open>data-id\<close> nor \<open>data-translator_id\<close>,
  fetched from a URL that contains \<open>/series/\<close>, has \<open>isSeries\<close> true.
\<close>

theorem getContentInfo_degrades_counterexample:
  "ok fixture_blank_page
   \<and> getContentInfo_response ''https://hdrezka.me/series/x.html'' (Resolved fixture_blank_page) =
       Inr \<lparr>contentId = None, translatorId = None, isSeries = True, translators = [],
         seasons = []\<rparr>"
  by (simp add: fixture_blank_page_def page_eval js_eval)

theorem getContentInfo_degrades_witness:
  "ok fixture_movie_page
   \<and> getContentInfo_response ''https://hdrezka.me/films/x.html'' (Resolved fixture_movie_page) =
       Inr \<lparr>contentId = Some ''123'', translatorId = Some ''4'', isSeries = False,
         translators = [\<lparr>translator_id = Finite 4, translator_name = ''Dub''\<rparr>], seasons = []\<rparr>
   \<and> first_occurrence ''data-id'' (body_text fixture_movie_page) ''123''
   \<and> first_occurrence ''data-translator_id'' (body_text fixture_movie_page) ''4''
   \<and> getContentInfo_response ''https://hdrezka.me/films/x.html'' (Resolved fixture_blank_page) =
       Inr \<lparr>contentId = None, translatorId = None, isSeries = False, translators = [],
         seasons = []\<rparr>
   \<and> no_occurrence ''data-id'' (body_text fixture_blank_page)
   \<and> no_occurrence ''data-translator_id'' (body_text fixture_blank_page)"
proof -
  have m: "getContentInfo_response ''https://hdrezka.me/films/x.html'' (Resolved fixture_movie_page) =
       Inr \<lparr>contentId = Some ''123'', translatorId = Some ''4'', isSeries = False,
         translators = [\<lparr>translator_id = Finite 4, translator_name = ''Dub''\<rparr>], seasons = []\<rparr>"
    by (simp add: fixture_movie_page_def page_eval js_eval)
  have b: "getContentInfo_response ''https://hdrezka.me/films/x.html'' (Resolved fixture_blank_page) =
       Inr \<lparr>contentId = None, translatorId = None, isSeries = False, translators = [],
         seasons = []\<rparr>"
    by (simp add: fixture_blank_page_def page_eval js_eval)
  have o: "ok fixture_movie_page" "ok fixture_blank_page"
    by (simp_all add: fixture_movie_page_def fixture_blank_page_def ok_def)
  from getContentInfo_degrades
    [of "''https://hdrezka.me/films/x.html''" "Resolved fixture_movie_page" fixture_movie_page
      "''123''"]
    getContentInfo_degrades
    [of "''https://hdrezka.me/films/x.html''" "Resolved fixture_movie_page" fixture_movie_page
      "''4''"]
    getContentInfo_degrades
    [of "''https://hdrezka.me/films/x.html''" "Resolved fixture_blank_page" fixture_blank_page
      "[]"]
  show ?thesis using o by (simp add: m b)
qed

section \<open>Seasons and episodes\<close>

lemma map_of_add_episode:
  "map_of (add_episode acc m) =
     (map_of acc)(fst m \<mapsto>
        dedup_into (case map_of acc (fst m) of None \<Rightarrow> [] | Some l \<Rightarrow> l) [parseInt (snd m)])"
  by (cases "map_of acc (fst m)")
    (auto simp: add_episode_def Let_def map_of_obj_update dedup_into_def fun_upd_idem)

lemma distinct_add_episode:
  "distinct (map fst acc) \<Longrightarrow> distinct (map fst (add_episode acc m))"
  by (simp add: add_episode_def Let_def distinct_obj_update split: option.splits)

lemma distinct_seasons: "distinct (map fst acc) \<Longrightarrow> distinct (map fst (foldl add_episode acc ms))"
  by (induction ms arbitrary: acc) (simp_all add: distinct_add_episode)

lemma map_of_seasons:
  "map_of (foldl add_episode acc ms) sid =
     (let eps = map (\<lambda>m. parseInt (snd m)) (filter (\<lambda>m. fst m = sid) ms)
      in if eps = [] then map_of acc sid
         else Some (dedup_into (case map_of acc sid of None \<Rightarrow> [] | Some l \<Rightarrow> l) eps))"
proof (induction ms arbitrary: acc)
  case Nil
  then show ?case by simp
next
  case (Cons m ms)
  show ?case
  proof (cases "fst m = sid")
    case True
    then show ?thesis
      using Cons [of "add_episode acc m"] dedup_into_Cons [of _ "parseInt (snd m)"]
      by (simp add: map_of_add_episode Let_def dedup_into_def)
  next
    case False
    then show ?thesis
      using Cons [of "add_episode acc m"] by (simp add: map_of_add_episode Let_def)
  qed
qed

text \<open>
  C8. For a series page, \<open>seasons\<close> holds for a season id the episode ids of the
  scanned pairs with that season id, each once, in the order of their first
  appearance, and nothing for a season id that no pair has; the season ids are
  distinct. An episode id is the number that \<open>parseInt\<close> makes of the digits, so
  that digits of the same number are the same episode id. A URL that contains \<open>/series/\<close> makes the page a series page, and with the
  single pair of season 10 and episode 3 the \<open>seasons\<close> are \<open>{"10":[3]}\<close>.
\<close>

theorem seasons_grouped_by_first_appearance:
  "fr = Resolved resp \<and> ok resp \<longrightarrow>
     (\<exists>info. getContentInfo_response page fr = Inr info
        \<and> (isSeries info \<longrightarrow>
             map_of (seasons info) sid =
               (let eps = map (\<lambda>m. parseInt (snd m))
                            (filter (\<lambda>m. fst m = sid) (scan_episodes (body_text resp)))
                in if eps = [] then None else Some (rev (remdups (rev eps)))))
        \<and> distinct (map fst (seasons info))
        \<and> (includes_js page ''/series/'' \<longrightarrow> isSeries info)
        \<and> (includes_js page ''/series/'' \<and> scan_episodes (body_text resp) = [(''10'', ''3'')]
             \<longrightarrow> seasons info = [(''10'', [Finite 3])]))"
proof
  assume a: "fr = Resolved resp \<and> ok resp"
  then have r: "getContentInfo_response page fr = Inr
     \<lparr>contentId = first_attr ''data-id'' (body_text resp),
          translatorId = first_attr ''data-translator_id'' (body_text resp),
          isSeries = (includes_js (body_text resp) ''sof.tv''
                      \<or> includes_js (body_text resp) ''data-season_id''
                      \<or> includes_js page ''/series/''),
          translators =
            map (\<lambda>m. \<lparr>translator_id = parseInt (fst m), translator_name = trim (snd m)\<rparr>)
              (scan_translators (body_text resp)),
          seasons = (if includes_js (body_text resp) ''sof.tv''
                        \<or> includes_js (body_text resp) ''data-season_id''
                        \<or> includes_js page ''/series/''
                     then foldl add_episode [] (scan_episodes (body_text resp)) else [])\<rparr>"
    using getContentInfo_response_ok [of resp page] by simp
  have g: "map_of (foldl add_episode [] ms) sid =
               (let eps = map (\<lambda>m. parseInt (snd m)) (filter (\<lambda>m. fst m = sid) ms)
                in if eps = [] then None else Some (rev (remdups (rev eps))))" for ms
    using map_of_seasons [of "[]" ms sid] by (simp add: Let_def dedup_into_Nil)
  have d: "distinct (map fst (foldl add_episode [] ms))" for ms
    by (rule distinct_seasons) simp
  have one: "add_episode [] (''10'', ''3'') = [(''10'', [Finite 3])]"
    by (simp add: add_episode_def js_eval)
  show "\<exists>info. getContentInfo_response page fr = Inr info
        \<and> (isSeries info \<longrightarrow>
             map_of (seasons info) sid =
               (let eps = map (\<lambda>m. parseInt (snd m))
                            (filter (\<lambda>m. fst m = sid) (scan_episodes (body_text resp)))
                in if eps = [] then None else Some (rev (remdups (rev eps)))))
        \<and> distinct (map fst (seasons info))
        \<and> (includes_js page ''/series/'' \<longrightarrow> isSeries info)
        \<and> (includes_js page ''/series/'' \<and> scan_episodes (body_text resp) = [(''10'', ''3'')]
             \<longrightarrow> seasons info = [(''10'', [Finite 3])])"
    unfolding r
    by (intro exI conjI, rule refl) (auto simp: g d one simp del: includes_js.simps)
qed

theorem seasons_grouped_by_first_appearance_witness:
  "ok fixture_series_page
   \<and> includes_js ''https://hdrezka.me/series/x.html'' ''/series/''
   \<and> scan_episodes (body_text fixture_series_page) = [(''10'', ''3'')]
   \<and> getContentInfo_response ''https://hdrezka.me/series/x.html'' (Resolved fixture_series_page) =
       Inr \<lparr>contentId = None, translatorId = None, isSeries = True, translators = [],
         seasons = [(''10'', [Finite 3])]\<rparr>
   \<and> scan_episodes (body_text fixture_episodes_page)
       = [(''2'', ''5''), (''1'', ''7''), (''2'', ''3''), (''2'', ''5'')]
   \<and> getContentInfo_response ''https://hdrezka.me/series/x.html'' (Resolved fixture_episodes_page) =
       Inr \<lparr>contentId = None, translatorId = None, isSeries = True, translators = [],
         seasons = [(''2'', [Finite 5, Finite 3]), (''1'', [Finite 7])]\<rparr>
   \<and> scan_episodes (body_text fixture_long_ids_page)
       = [(''1'', ''9007199254740993''), (''1'', ''9007199254740992'')]
   \<and> getContentInfo_response ''https://hdrezka.me/series/x.html'' (Resolved fixture_long_ids_page) =
       Inr \<lparr>contentId = None, translatorId = None, isSeries = True, translators = [],
         seasons = [(''1'', [Finite 9007199254740992])]\<rparr>"
proof -
  have l: "getContentInfo_response ''https://hdrezka.me/series/x.html'' (Resolved fixture_long_ids_page) =
       Inr \<lparr>contentId = None, translatorId = None, isSeries = True, translators = [],
         seasons = [(''1'', [Finite 9007199254740992])]\<rparr>"
    "scan_episodes (body_text fixture_long_ids_page)
       = [(''1'', ''9007199254740993''), (''1'', ''9007199254740992'')]"
    by (simp_all add: fixture_long_ids_page_def page_eval js_eval)
  have s: "getContentInfo_response ''https://hdrezka.me/series/x.html'' (Resolved fixture_series_page) =
       Inr \<lparr>contentId = None, translatorId = None, isSeries = True, translators = [],
         seasons = [(''10'', [Finite 3])]\<rparr>"
    by (simp add: fixture_series_page_def page_eval js_eval)
  have e: "getContentInfo_response ''https://hdrezka.me/series/x.html'' (Resolved fixture_episodes_page) =
       Inr \<lparr>contentId = None, translatorId = None, isSeries = True, translators = [],
         seasons = [(''2'', [Finite 5, Finite 3]), (''1'', [Finite 7])]\<rparr>"
    by (simp add: fixture_episodes_page_def page_eval js_eval)
  have sc: "scan_episodes (body_text fixture_series_page) = [(''10'', ''3'')]"
    "scan_episodes (body_text fixture_episodes_page)
       = [(''2'', ''5''), (''1'', ''7''), (''2'', ''3''), (''2'', ''5'')]"
    by (simp_all add: fixture_series_page_def fixture_episodes_page_def page_eval js_eval)
  have o: "ok fixture_series_page" "includes_js ''https://hdrezka.me/series/x.html'' ''/series/''"
    by (simp_all add: fixture_series_page_def ok_def startsWith_def)
  from seasons_grouped_by_first_appearance
    [of "Resolved fixture_series_page" fixture_series_page "''https://hdrezka.me/series/x.html''"
      "''10''"]
    seasons_grouped_by_first_appearance
    [of "Resolved fixture_episodes_page" fixture_episodes_page
      "''https://hdrezka.me/series/x.html''" "''2''"]
  show ?thesis using o by (simp add: s e sc l)
qed

section \<open>The entries of a search\<close>

lemma startsWith_iff: "startsWith s w \<longleftrightarrow> (\<exists>post. s = w @ post)"
proof
  assume "startsWith s w"
  then have "s = w @ drop (length w) s"
    unfolding startsWith_def by (metis append_take_drop_id)
  then show "\<exists>post. s = w @ post" ..
next
  assume "\<exists>post. s = w @ post"
  then show "startsWith s w" by (auto simp: startsWith_def)
qed

lemma includes_js_iff: "includes_js s w \<longleftrightarrow> contains s w"
proof (induction s)
  case Nil
  then show ?case by (auto simp: contains_def)
next
  case (Cons c cs)
  have "contains (c # cs) w \<longleftrightarrow> startsWith (c # cs) w \<or> contains cs w"
  proof
    assume "contains (c # cs) w"
    then obtain pre post where e: "c # cs = pre @ w @ post" unfolding contains_def by blast
    show "startsWith (c # cs) w \<or> contains cs w"
    proof (cases pre)
      case Nil
      with e show ?thesis by (auto simp: startsWith_iff)
    next
      case (Cons a p)
      with e have "cs = p @ w @ post" by simp
      then show ?thesis unfolding contains_def by blast
    qed
  next
    assume "startsWith (c # cs) w \<or> contains cs w"
    then show "contains (c # cs) w"
    proof
      assume "startsWith (c # cs) w"
      then obtain post where "c # cs = [] @ w @ post" by (auto simp: startsWith_iff)
      then show ?thesis unfolding contains_def by blast
    next
      assume "contains cs w"
      then obtain pre post where "cs = pre @ w @ post" unfolding contains_def by blast
      then have "c # cs = (c # pre) @ w @ post" by simp
      then show ?thesis unfolding contains_def by blast
    qed
  qed
  with Cons show ?case by simp
qed

lemma window_iff:
  "4 \<le> length s \<and> list_all is_digit (take 4 s) \<longleftrightarrow> (\<exists>y post. s = y @ post \<and> four_digits y)"
proof
  assume a: "4 \<le> length s \<and> list_all is_digit (take 4 s)"
  then have "s = take 4 s @ drop 4 s \<and> four_digits (take 4 s)"
    by (simp add: four_digits_def)
  then show "\<exists>y post. s = y @ post \<and> four_digits y" by blast
next
  assume "\<exists>y post. s = y @ post \<and> four_digits y"
  then obtain y post where "s = y @ post" "four_digits y" by blast
  then show "4 \<le> length s \<and> list_all is_digit (take 4 s)"
    by (simp add: four_digits_def)
qed

lemma window_take:
  "s = y @ post \<Longrightarrow> four_digits y \<Longrightarrow> take 4 s = y"
  by (simp add: four_digits_def)

lemma first_year_Some_iff: "first_year info = Some y \<longleftrightarrow> first_four_digits info y"
proof (induction info)
  case Nil
  then show ?case by (auto simp: first_four_digits_def four_digits_def)
next
  case (Cons c cs)
  show ?case
  proof (cases "4 \<le> length (c # cs) \<and> list_all is_digit (take 4 (c # cs))")
    case True
    then obtain y0 post0 where here: "c # cs = y0 @ post0" "four_digits y0"
      using window_iff [of "c # cs"] by blast
    have y0: "y0 = take 4 (c # cs)" using window_take [OF here] by simp
    have "first_four_digits (c # cs) y \<longleftrightarrow> y = y0"
    proof
      assume "first_four_digits (c # cs) y"
      then obtain pre post where p: "c # cs = pre @ y @ post" "four_digits y"
        and m: "\<And>pre' y' post'. c # cs = pre' @ y' @ post' \<Longrightarrow> four_digits y'
              \<Longrightarrow> length pre \<le> length pre'"
        unfolding first_four_digits_def by blast
      from m [of "[]" y0 post0] here have "pre = []" by simp
      with p have "take 4 (c # cs) = y" using window_take [of "c # cs" y post] by simp
      with y0 show "y = y0" by simp
    next
      assume "y = y0"
      with here show "first_four_digits (c # cs) y"
        unfolding first_four_digits_def by (intro exI [of _ "[]"] exI [of _ post0]) simp
    qed
    moreover from True
    have "(4 \<le> length (c # cs) \<and> list_all is_digit (take 4 (c # cs))) = True" by blast
    then have "first_year (c # cs) = Some y0"
      by (simp only: first_year.simps if_True y0)
    ultimately show ?thesis by auto
  next
    case False
    then have no: "c # cs \<noteq> y' @ r \<or> \<not> four_digits y'" for y' r
      using window_iff [of "c # cs"] by blast
    have "first_four_digits (c # cs) y \<longleftrightarrow> first_four_digits cs y"
    proof
      assume "first_four_digits (c # cs) y"
      then obtain pre post where p: "c # cs = pre @ y @ post" "four_digits y"
        and m: "\<And>pre' y' post'. c # cs = pre' @ y' @ post' \<Longrightarrow> four_digits y'
              \<Longrightarrow> length pre \<le> length pre'"
        unfolding first_four_digits_def by blast
      from p no [of y post] obtain p1 where pre: "pre = c # p1" by (cases pre) auto
      with p have 1: "cs = p1 @ y @ post" by simp
      have "length p1 \<le> length p2" if "cs = p2 @ y2 @ r2" "four_digits y2" for p2 y2 r2
        using m [of "c # p2" y2 r2] that pre by simp
      with 1 p(2) show "first_four_digits cs y"
        unfolding first_four_digits_def by blast
    next
      assume "first_four_digits cs y"
      then obtain pre post where p: "cs = pre @ y @ post" "four_digits y"
        and m: "\<And>pre' y' post'. cs = pre' @ y' @ post' \<Longrightarrow> four_digits y'
              \<Longrightarrow> length pre \<le> length pre'"
        unfolding first_four_digits_def by blast
      have "length (c # pre) \<le> length p2" if "c # cs = p2 @ y2 @ r2" "four_digits y2"
        for p2 y2 r2
      proof (cases p2)
        case Nil
        with that no [of y2 r2] show ?thesis by simp
      next
        case (Cons a p3)
        with that m [of p3 y2 r2] show ?thesis by simp
      qed
      moreover from p have "c # cs = (c # pre) @ y @ post" by simp
      ultimately show "first_four_digits (c # cs) y"
        unfolding first_four_digits_def using p(2) by blast
    qed
    moreover from False
    have "(4 \<le> length (c # cs) \<and> list_all is_digit (take 4 (c # cs))) = False" by blast
    then have "first_year (c # cs) = first_year cs"
      by (simp only: first_year.simps if_False)
    ultimately show ?thesis using Cons by simp
  qed
qed

lemma first_year_None_iff: "first_year info = None \<longleftrightarrow> no_four_digits info"
proof (induction info)
  case Nil
  then show ?case by (auto simp: no_four_digits_def four_digits_def)
next
  case (Cons c cs)
  show ?case
  proof (cases "4 \<le> length (c # cs) \<and> list_all is_digit (take 4 (c # cs))")
    case True
    then obtain y0 post0 where "c # cs = [] @ y0 @ post0" "four_digits y0"
      using window_iff [of "c # cs"] by auto
    then have "\<not> no_four_digits (c # cs)" unfolding no_four_digits_def by blast
    moreover from True
    have "(4 \<le> length (c # cs) \<and> list_all is_digit (take 4 (c # cs))) = True" by blast
    then have "first_year (c # cs) = Some (take 4 (c # cs))"
      by (simp only: first_year.simps if_True)
    ultimately show ?thesis by simp
  next
    case False
    then have no: "c # cs \<noteq> y' @ r \<or> \<not> four_digits y'" for y' r
      using window_iff [of "c # cs"] by blast
    have "no_four_digits (c # cs) \<longleftrightarrow> no_four_digits cs"
    proof
      assume a: "no_four_digits (c # cs)"
      show "no_four_digits cs"
        unfolding no_four_digits_def
      proof (intro allI impI)
        fix pre y post assume "cs = pre @ y @ post"
        then have "c # cs = (c # pre) @ y @ post" by simp
        with a show "\<not> four_digits y" unfolding no_four_digits_def by blast
      qed
    next
      assume a: "no_four_digits cs"
      show "no_four_digits (c # cs)"
        unfolding no_four_digits_def
      proof (intro allI impI)
        fix pre y post assume e: "c # cs = pre @ y @ post"
        show "\<not> four_digits y"
        proof (cases pre)
          case Nil
          with e no [of y post] show ?thesis by simp
        next
          case (Cons a p2)
          with e have "cs = p2 @ y @ post" by simp
          with a show ?thesis unfolding no_four_digits_def by blast
        qed
      qed
    qed
    moreover from False
    have "(4 \<le> length (c # cs) \<and> list_all is_digit (take 4 (c # cs))) = False" by blast
    then have "first_year (c # cs) = first_year cs"
      by (simp only: first_year.simps if_False)
    ultimately show ?thesis using Cons by simp
  qed
qed

text \<open>
  C9. Every entry that the search extracts comes from a match of the item pattern; its
  type is \<open>series\<close> when its URL contains \<open>/series/\<close>; otherwise, when the URL
  contains \<open>/cartoons/\<close>, it is \<open>series\<close> exactly when the URL contains \<open>-sezon\<close> too
  and \<open>movie\<close> if not; every other URL gives \<open>movie\<close>. Its year is the first four
  digits in a row of the trimmed info text, and null when the text has none.
\<close>

theorem search_entry_type_and_year:
  "searchContent_response fr = Inr entries \<and> e \<in> set entries \<longrightarrow>
     contentType e =
       (if contains (url e) ''/series/'' then ''series''
        else if contains (url e) ''/cartoons/''
             then (if contains (url e) ''-sezon'' then ''series'' else ''movie'')
        else ''movie'')
     \<and> (\<exists>resp g1 g2 g3 g4.
           fr = Resolved resp \<and> (g1, g2, g3, g4) \<in> set (scan_items (body_text resp))
           \<and> url e = g1 \<and> poster e = g2 \<and> title e = trim g3
           \<and> (\<forall>y. year e = Some y \<longleftrightarrow> first_four_digits (trim g4) y)
           \<and> (year e = None \<longleftrightarrow> no_four_digits (trim g4)))"
proof
  assume a: "searchContent_response fr = Inr entries \<and> e \<in> set entries"
  then obtain resp where fr: "fr = Resolved resp"
    and entries: "entries = map search_entry (scan_items (body_text resp))"
    by (cases fr) (auto simp: searchContent_response_def split: if_splits)
  with a obtain m where m: "m \<in> set (scan_items (body_text resp))" and e: "e = search_entry m"
    by auto
  obtain g1 g2 g3 g4 where g: "m = (g1, g2, g3, g4)" by (cases m)
  have f: "url e = g1" "poster e = g2" "title e = trim g3" "year e = first_year (trim g4)"
    "contentType e = content_type g1"
    by (simp_all add: e g search_entry_def)
  have t: "contentType e =
       (if contains (url e) ''/series/'' then ''series''
        else if contains (url e) ''/cartoons/''
             then (if contains (url e) ''-sezon'' then ''series'' else ''movie'')
        else ''movie'')"
    unfolding f content_type_def includes_js_iff ..
  have y: "(\<forall>y. year e = Some y \<longleftrightarrow> first_four_digits (trim g4) y)
           \<and> (year e = None \<longleftrightarrow> no_four_digits (trim g4))"
    unfolding f by (simp add: first_year_Some_iff first_year_None_iff)
  from m g have mm: "(g1, g2, g3, g4) \<in> set (scan_items (body_text resp))" by simp
  have "fr = Resolved resp \<and> (g1, g2, g3, g4) \<in> set (scan_items (body_text resp))
           \<and> url e = g1 \<and> poster e = g2 \<and> title e = trim g3
           \<and> (\<forall>y. year e = Some y \<longleftrightarrow> first_four_digits (trim g4) y)
           \<and> (year e = None \<longleftrightarrow> no_four_digits (trim g4))"
    using fr mm f(1,2,3) y by (intro conjI) simp_all
  then have "\<exists>resp g1 g2 g3 g4.
           fr = Resolved resp \<and> (g1, g2, g3, g4) \<in> set (scan_items (body_text resp))
           \<and> url e = g1 \<and> poster e = g2 \<and> title e = trim g3
           \<and> (\<forall>y. year e = Some y \<longleftrightarrow> first_four_digits (trim g4) y)
           \<and> (year e = None \<longleftrightarrow> no_four_digits (trim g4))"
    by (intro exI)
  with t show "contentType e =
       (if contains (url e) ''/series/'' then ''series''
        else if contains (url e) ''/cartoons/''
             then (if contains (url e) ''-sezon'' then ''series'' else ''movie'')
        else ''movie'')
     \<and> (\<exists>resp g1 g2 g3 g4.
           fr = Resolved resp \<and> (g1, g2, g3, g4) \<in> set (scan_items (body_text resp))
           \<and> url e = g1 \<and> poster e = g2 \<and> title e = trim g3
           \<and> (\<forall>y. year e = Some y \<longleftrightarrow> first_four_digits (trim g4) y)
           \<and> (year e = None \<longleftrightarrow> no_four_digits (trim g4)))"
    by (rule conjI)
qed

theorem search_entry_type_and_year_witness:
  "scan_items (body_text fixture_search_page)
     = [(''https://hdrezka.me/cartoons/x-sezon.html'', ''p.jpg'', ''Title'', ''USA, 2019 - 2021'')]
   \<and> searchContent_response (Resolved fixture_search_page) =
       Inr [\<lparr>url = ''https://hdrezka.me/cartoons/x-sezon.html'', title = ''Title'',
              contentType = ''series'', year = Some ''2019'', poster = ''p.jpg''\<rparr>]
   \<and> \<not> contains ''https://hdrezka.me/cartoons/x-sezon.html'' ''/series/''
   \<and> contains ''https://hdrezka.me/cartoons/x-sezon.html'' ''/cartoons/''
   \<and> contains ''https://hdrezka.me/cartoons/x-sezon.html'' ''-sezon''
   \<and> first_four_digits ''USA, 2019 - 2021'' ''2019''"
proof -
  have s: "scan_items (body_text fixture_search_page)
     = [(''https://hdrezka.me/cartoons/x-sezon.html'', ''p.jpg'', ''Title'', ''USA, 2019 - 2021'')]"
    by (simp add: fixture_search_page_def page_eval js_eval)
  have r: "searchContent_response (Resolved fixture_search_page) =
       Inr [\<lparr>url = ''https://hdrezka.me/cartoons/x-sezon.html'', title = ''Title'',
              contentType = ''series'', year = Some ''2019'', poster = ''p.jpg''\<rparr>]"
    by (simp add: fixture_search_page_def page_eval js_eval)
  have c: "\<not> contains ''https://hdrezka.me/cartoons/x-sezon.html'' ''/series/''"
    "contains ''https://hdrezka.me/cartoons/x-sezon.html'' ''/cartoons/''"
    "contains ''https://hdrezka.me/cartoons/x-sezon.html'' ''-sezon''"
    unfolding includes_js_iff [symmetric] by (simp_all add: startsWith_def)
  have t: "trim ''USA, 2019 - 2021'' = ''USA, 2019 - 2021''" by (simp add: js_eval)
  from search_entry_type_and_year
    [of "Resolved fixture_search_page"
      "[\<lparr>url = ''https://hdrezka.me/cartoons/x-sezon.html'', title = ''Title'',
              contentType = ''series'', year = Some ''2019'', poster = ''p.jpg''\<rparr>]"
      "\<lparr>url = ''https://hdrezka.me/cartoons/x-sezon.html'', title = ''Title'',
              contentType = ''series'', year = Some ''2019'', poster = ''p.jpg''\<rparr>"]
  have "\<forall>y. (''2019'' = y) = first_four_digits ''USA, 2019 - 2021'' y"
    by (simp add: r s t c)
  then have "first_four_digits ''USA, 2019 - 2021'' ''2019''" by blast
  with s r c show ?thesis by blast
qed

section \<open>The translator of a stream request\<close>

lemma map_of_stream_form:
  "map_of (stream_form cid tid season episode) ''id'' = Some (JStr cid)"
  "map_of (stream_form cid tid season episode) ''translator_id'' = Some tid"
  by (simp_all add: stream_form_def Let_def)

lemma handle_stream_found:
  assumes "map_of params ''url'' = Some page" "page \<noteq> []"
    "getContentInfo_response page (net (GetPage page)) = Inr info"
    "contentId info = Some cid" "cid \<noteq> []"
  defines "form \<equiv> stream_form cid
        (chosen_translator (map_of params ''translator_id'') (translatorId info))
        (number_param (map_of params ''season'')) (number_param (map_of params ''episode''))"
  shows "handle_stream net params =
     ([GetPage page, PostStream form],
      (case getStream_response (net (PostStream form)) of
         Inl e \<Rightarrow> \<lparr>reply_status = 500, reply_body = ThrownBody e\<rparr>
       | Inr stream \<Rightarrow> \<lparr>reply_status = 200, reply_body = StreamBody stream\<rparr>))"
  using assms(1-5) unfolding form_def
  by (simp add: handle_stream_def getContentInfo_def getStream_def fetch_js_def Let_def
      split: sum.splits)

text \<open>
  C10. On \<open>/api/stream\<close>, when the network answers the page request with a page whose
  first \<open>data-id\<close> is found, the worker sends the page request and then one stream
  request, and answers with what \<open>getStream\<close> makes of the network's answer to that
  stream request. The \<open>translator_id\<close> of the stream request is the query parameter
  \<open>translator_id\<close> when that is given and not empty, and otherwise the page's primary
  translator: the value of the first \<open>data-translator_id\<close> of the page, or null when
  the page has none.
\<close>

theorem stream_translator_fallback:
  "req_method request \<noteq> ''OPTIONS'' \<and> req_path request = ''/api/stream''
   \<and> map_of (req_params request) ''url'' = Some page \<and> page \<noteq> []
   \<and> net (GetPage page) = Resolved resp \<and> ok resp
   \<and> first_occurrence ''data-id'' (body_text resp) cid \<longrightarrow>
     (\<exists>primary form.
        (\<forall>ds. primary = JStr ds \<longleftrightarrow>
               first_occurrence ''data-translator_id'' (body_text resp) ds)
        \<and> (primary = JNull \<longleftrightarrow> no_occurrence ''data-translator_id'' (body_text resp))
        \<and> map_of form ''id'' = Some (JStr cid)
        \<and> map_of form ''translator_id'' =
            Some (case map_of (req_params request) ''translator_id'' of
                    None \<Rightarrow> primary
                  | Some t \<Rightarrow> if t = [] then primary else JStr t)
        \<and> fetch_handler net request =
            ([GetPage page, PostStream form],
             (case getStream_response (net (PostStream form)) of
                Inl e \<Rightarrow> \<lparr>reply_status = 500, reply_body = ThrownBody e\<rparr>
              | Inr stream \<Rightarrow> \<lparr>reply_status = 200, reply_body = StreamBody stream\<rparr>)))"
proof
  assume a: "req_method request \<noteq> ''OPTIONS'' \<and> req_path request = ''/api/stream''
   \<and> map_of (req_params request) ''url'' = Some page \<and> page \<noteq> []
   \<and> net (GetPage page) = Resolved resp \<and> ok resp
   \<and> first_occurrence ''data-id'' (body_text resp) cid"
  let ?html = "body_text resp"
  let ?found = "first_attr ''data-translator_id'' ?html"
  let ?primary = "case ?found of None \<Rightarrow> JNull | Some p \<Rightarrow> JStr p"
  let ?tid = "chosen_translator (map_of (req_params request) ''translator_id'') ?found"
  let ?form = "stream_form cid ?tid (number_param (map_of (req_params request) ''season''))
                 (number_param (map_of (req_params request) ''episode''))"
  from a have h: "fetch_handler net request = handle_stream net (req_params request)"
    by (simp add: fetch_handler_def Let_def)
  from a obtain info where i: "getContentInfo_response page (net (GetPage page)) = Inr info"
    and c: "contentId info = first_attr ''data-id'' ?html"
    and t: "translatorId info = ?found"
    using getContentInfo_response_ok [of resp page] by simp
  from a have cid: "first_attr ''data-id'' ?html = Some cid"
    by (simp add: first_attr_Some_iff)
  from a have ne: "cid \<noteq> []" by (auto simp: first_occurrence_def numeric_def)
  have 1: "\<forall>ds. ?primary = JStr ds \<longleftrightarrow> first_occurrence ''data-translator_id'' ?html ds"
    using first_attr_Some_iff [of "''data-translator_id''" ?html]
    by (cases ?found) simp_all
  have 2: "?primary = JNull \<longleftrightarrow> no_occurrence ''data-translator_id'' ?html"
    using first_attr_None_iff [of "''data-translator_id''" ?html]
    by (cases ?found) simp_all
  have 3: "map_of ?form ''id'' = Some (JStr cid)" by (rule map_of_stream_form)
  have 4: "map_of ?form ''translator_id'' =
            Some (case map_of (req_params request) ''translator_id'' of
                    None \<Rightarrow> ?primary
                  | Some t \<Rightarrow> if t = [] then ?primary else JStr t)"
    by (simp add: map_of_stream_form chosen_translator_def Let_def split: option.splits)
  have 5: "fetch_handler net request =
            ([GetPage page, PostStream ?form],
             (case getStream_response (net (PostStream ?form)) of
                Inl e \<Rightarrow> \<lparr>reply_status = 500, reply_body = ThrownBody e\<rparr>
              | Inr stream \<Rightarrow> \<lparr>reply_status = 200, reply_body = StreamBody stream\<rparr>))"
    unfolding h t [symmetric]
    using handle_stream_found [of "req_params request" page net info cid] a i c cid ne
    by simp
  show "\<exists>primary form.
        (\<forall>ds. primary = JStr ds \<longleftrightarrow>
               first_occurrence ''data-translator_id'' (body_text resp) ds)
        \<and> (primary = JNull \<longleftrightarrow> no_occurrence ''data-translator_id'' (body_text resp))
        \<and> map_of form ''id'' = Some (JStr cid)
        \<and> map_of form ''translator_id'' =
            Some (case map_of (req_params request) ''translator_id'' of
                    None \<Rightarrow> primary
                  | Some t \<Rightarrow> if t = [] then primary else JStr t)
        \<and> fetch_handler net request =
            ([GetPage page, PostStream form],
             (case getStream_response (net (PostStream form)) of
                Inl e \<Rightarrow> \<lparr>reply_status = 500, reply_body = ThrownBody e\<rparr>
              | Inr stream \<Rightarrow> \<lparr>reply_status = 200, reply_body = StreamBody stream\<rparr>))"
    by (intro exI [of _ ?primary] exI [of _ ?form] conjI) (rule 1 2 3 4 5)+
qed

theorem stream_translator_fallback_witness:
  "fixture_net (GetPage ''https://hdrezka.me/films/x.html'') = Resolved fixture_movie_page
   \<and> ok fixture_movie_page
   \<and> first_occurrence ''data-id'' (body_text fixture_movie_page) ''123''
   \<and> first_occurrence ''data-translator_id'' (body_text fixture_movie_page) ''4''
   \<and> fetch_handler fixture_net (fixture_stream_request []) =
       ([GetPage ''https://hdrezka.me/films/x.html'',
         PostStream [(''id'', JStr ''123''), (''translator_id'', JStr ''4''),
           (''action'', JStr ''get_movie'')]],
        \<lparr>reply_status = 200,
         reply_body = StreamBody
           \<lparr>stream_url = ''b.m3u8'', qualities = [''720'', ''1080''], subtitles = [],
            all_urls = [(''720'', ''a.m3u8''), (''1080'', ''b.m3u8'')]\<rparr>\<rparr>)
   \<and> fetch_handler fixture_net (fixture_stream_request [(''translator_id'', [])]) =
       ([GetPage ''https://hdrezka.me/films/x.html'',
         PostStream [(''id'', JStr ''123''), (''translator_id'', JStr ''4''),
           (''action'', JStr ''get_movie'')]],
        \<lparr>reply_status = 200,
         reply_body = StreamBody
           \<lparr>stream_url = ''b.m3u8'', qualities = [''720'', ''1080''], subtitles = [],
            all_urls = [(''720'', ''a.m3u8''), (''1080'', ''b.m3u8'')]\<rparr>\<rparr>)
   \<and> fetch_handler fixture_net (fixture_stream_request [(''translator_id'', ''56'')]) =
       ([GetPage ''https://hdrezka.me/films/x.html'',
         PostStream [(''id'', JStr ''123''), (''translator_id'', JStr ''56''),
           (''action'', JStr ''get_movie'')]],
        \<lparr>reply_status = 200,
         reply_body = StreamBody
           \<lparr>stream_url = ''a.m3u8'', qualities = [''360p'', ''720p''], subtitles = [],
            all_urls = [(''720p'', ''a.m3u8''), (''360p'', ''b.m3u8'')]\<rparr>\<rparr>)"
proof -
  let ?page = "''https://hdrezka.me/films/x.html''"
  have n: "fixture_net (GetPage ?page) = Resolved fixture_movie_page"
    by (simp add: fixture_net_def)
  have o: "ok fixture_movie_page" by (simp add: fixture_movie_page_def ok_def)
  have f: "first_attr ''data-id'' (body_text fixture_movie_page) = Some ''123''"
    "first_attr ''data-translator_id'' (body_text fixture_movie_page) = Some ''4''"
    by (simp_all add: fixture_movie_page_def page_eval js_eval)
  then have occ: "first_occurrence ''data-id'' (body_text fixture_movie_page) ''123''"
    "first_occurrence ''data-translator_id'' (body_text fixture_movie_page) ''4''"
    by (simp_all add: first_attr_Some_iff)
  have s: "getStream_response fixture_two_qualities =
     Inr \<lparr>stream_url = ''b.m3u8'', qualities = [''720'', ''1080''], subtitles = [],
       all_urls = [(''720'', ''a.m3u8''), (''1080'', ''b.m3u8'')]\<rparr>"
    by (simp add: fixture_two_qualities_def js_eval)
  have r: "fixture_net (PostStream ((''id'', i) # (''translator_id'', t) # rest)) =
      (if t = JStr ''56'' then stream_envelope token_unsorted else fixture_two_qualities)"
    for i t rest
    by (simp add: fixture_net_def)
  have p: "req_method (fixture_stream_request extra) \<noteq> ''OPTIONS''
      \<and> req_path (fixture_stream_request extra) = ''/api/stream''
      \<and> map_of (req_params (fixture_stream_request extra)) ''url'' = Some ?page
      \<and> ?page \<noteq> []" for extra
    by (simp add: fixture_stream_request_def)
  note th = stream_translator_fallback [of _ ?page fixture_net fixture_movie_page "''123''"]
  have g: "\<exists>form. map_of form ''translator_id'' =
              Some (case map_of (req_params (fixture_stream_request extra)) ''translator_id'' of
                      None \<Rightarrow> JStr ''4''
                    | Some t \<Rightarrow> if t = [] then JStr ''4'' else JStr t)
            \<and> fetch_handler fixture_net (fixture_stream_request extra) =
                ([GetPage ?page, PostStream form],
                 (case getStream_response (fixture_net (PostStream form)) of
                    Inl e \<Rightarrow> \<lparr>reply_status = 500, reply_body = ThrownBody e\<rparr>
                  | Inr stream \<Rightarrow> \<lparr>reply_status = 200, reply_body = StreamBody stream\<rparr>))"
    for extra
  proof -
    from th [of "fixture_stream_request extra"] p [of extra] n o occ(1)
    obtain primary form where
      1: "\<forall>ds. primary = JStr ds \<longleftrightarrow>
               first_occurrence ''data-translator_id'' (body_text fixture_movie_page) ds"
      and 2: "map_of form ''translator_id'' =
            Some (case map_of (req_params (fixture_stream_request extra)) ''translator_id'' of
                    None \<Rightarrow> primary
                  | Some t \<Rightarrow> if t = [] then primary else JStr t)"
      and 3: "fetch_handler fixture_net (fixture_stream_request extra) =
            ([GetPage ?page, PostStream form],
             (case getStream_response (fixture_net (PostStream form)) of
                Inl e \<Rightarrow> \<lparr>reply_status = 500, reply_body = ThrownBody e\<rparr>
              | Inr stream \<Rightarrow> \<lparr>reply_status = 200, reply_body = StreamBody stream\<rparr>))"
      by blast
    from 1 occ(2) have "primary = JStr ''4''" by blast
    with 2 3 show ?thesis by blast
  qed
  have e: "fetch_handler fixture_net (fixture_stream_request extra) =
       ([GetPage ?page,
         PostStream [(''id'', JStr ''123''),
           (''translator_id'', chosen_translator (map_of extra ''translator_id'') (Some ''4'')),
           (''action'', JStr ''get_movie'')]],
        (case getStream_response
            (fixture_net (PostStream [(''id'', JStr ''123''),
               (''translator_id'', chosen_translator (map_of extra ''translator_id'') (Some ''4'')),
               (''action'', JStr ''get_movie'')])) of
           Inl e \<Rightarrow> \<lparr>reply_status = 500, reply_body = ThrownBody e\<rparr>
         | Inr stream \<Rightarrow> \<lparr>reply_status = 200, reply_body = StreamBody stream\<rparr>))"
    if "map_of extra ''season'' = None" "map_of extra ''episode'' = None" for extra
  proof -
    have i: "getContentInfo_response ?page (fixture_net (GetPage ?page)) =
       Inr \<lparr>contentId = Some ''123'', translatorId = Some ''4'', isSeries = False,
         translators = [\<lparr>translator_id = Finite 4, translator_name = ''Dub''\<rparr>], seasons = []\<rparr>"
      unfolding n by (simp add: fixture_movie_page_def page_eval js_eval)
    have "fetch_handler fixture_net (fixture_stream_request extra)
        = handle_stream fixture_net ((''url'', ?page) # extra)"
      by (simp add: fetch_handler_def fixture_stream_request_def Let_def)
    also have "\<dots> =
     ([GetPage ?page,
       PostStream (stream_form ''123''
         (chosen_translator (map_of ((''url'', ?page) # extra) ''translator_id'') (Some ''4''))
         (number_param (map_of ((''url'', ?page) # extra) ''season''))
         (number_param (map_of ((''url'', ?page) # extra) ''episode'')))],
      (case getStream_response (fixture_net (PostStream (stream_form ''123''
         (chosen_translator (map_of ((''url'', ?page) # extra) ''translator_id'') (Some ''4''))
         (number_param (map_of ((''url'', ?page) # extra) ''season''))
         (number_param (map_of ((''url'', ?page) # extra) ''episode''))))) of
         Inl e \<Rightarrow> \<lparr>reply_status = 500, reply_body = ThrownBody e\<rparr>
       | Inr stream \<Rightarrow> \<lparr>reply_status = 200, reply_body = StreamBody stream\<rparr>))"
      using handle_stream_found [of "(''url'', ?page) # extra" ?page fixture_net _ "''123''", OF _ _ i]
      by simp
    finally show ?thesis using that
      by (simp add: stream_form_def default_null_def number_param_def Let_def)
  qed
  have c1: "fetch_handler fixture_net (fixture_stream_request []) =
       ([GetPage ?page,
         PostStream [(''id'', JStr ''123''), (''translator_id'', JStr ''4''),
           (''action'', JStr ''get_movie'')]],
        \<lparr>reply_status = 200,
         reply_body = StreamBody
           \<lparr>stream_url = ''b.m3u8'', qualities = [''720'', ''1080''], subtitles = [],
            all_urls = [(''720'', ''a.m3u8''), (''1080'', ''b.m3u8'')]\<rparr>\<rparr>)"
    by (simp add: e r s chosen_translator_def)
  have c2: "fetch_handler fixture_net (fixture_stream_request [(''translator_id'', [])]) =
       ([GetPage ?page,
         PostStream [(''id'', JStr ''123''), (''translator_id'', JStr ''4''),
           (''action'', JStr ''get_movie'')]],
        \<lparr>reply_status = 200,
         reply_body = StreamBody
           \<lparr>stream_url = ''b.m3u8'', qualities = [''720'', ''1080''], subtitles = [],
            all_urls = [(''720'', ''a.m3u8''), (''1080'', ''b.m3u8'')]\<rparr>\<rparr>)"
    by (simp add: e r s chosen_translator_def)
  have c3: "fetch_handler fixture_net (fixture_stream_request [(''translator_id'', ''56'')]) =
       ([GetPage ?page,
         PostStream [(''id'', JStr ''123''), (''translator_id'', JStr ''56''),
           (''action'', JStr ''get_movie'')]],
        \<lparr>reply_status = 200,
         reply_body = StreamBody
           \<lparr>stream_url = ''a.m3u8'', qualities = [''360p'', ''720p''], subtitles = [],
            all_urls = [(''720p'', ''a.m3u8''), (''360p'', ''b.m3u8'')]\<rparr>\<rparr>)"
    by (simp add: e r unsorted_result chosen_translator_def)
  from g [of "[]"] g [of "[(''translator_id'', [])]"] g [of "[(''translator_id'', ''56'')]"]
  show ?thesis
    by (simp add: n o occ c1 c2 c3)
qed

end
